theory Spec2Isabelle
  imports Complex_Main "HOL-Library.Monad_Syntax"
begin

unbundle bit_operations_syntax

section \<open>Data model of \<^verbatim>\<open>sm64_port-cat-edition-v0.py\<close>\<close>

text \<open>
  Python floats are modelled as \<^typ>\<open>real\<close> (exact arithmetic: no rounding, no NaN, no
  infinities) and Python's unbounded ints as \<^typ>\<open>int\<close>. A raised exception is the
  value \<^term>\<open>None\<close> of an option type.
\<close>

record Vec3f =
  vx :: real
  vy :: real
  vz :: real

text \<open>\<^verbatim>\<open>Vec3s\<close> is declared with int fields, but the handlers store floats in
  \<^verbatim>\<open>face.y\<close> (the result of \<^verbatim>\<open>approach_angle\<close> with increment 11.25), so its fields
  are reals here.\<close>

record Vec3s =
  sx :: real
  sy :: real
  sz :: real

definition clamp :: "real \<Rightarrow> real \<Rightarrow> real \<Rightarrow> real" where
  "clamp v lo hi = max lo (min hi v)"

definition approach_f32 :: "real \<Rightarrow> real \<Rightarrow> real \<Rightarrow> real" where
  "approach_f32 cur tgt inc =
     (if cur < tgt then min (cur + inc) tgt
      else if cur > tgt then max (cur - inc) tgt
      else cur)"

text \<open>Python's \<^verbatim>\<open>%\<close> on floats with a positive modulus: the floored remainder.\<close>

definition py_fmod :: "real \<Rightarrow> real \<Rightarrow> real" where
  "py_fmod a m = a - m * of_int \<lfloor>a / m\<rfloor>"

definition approach_angle :: "real \<Rightarrow> real \<Rightarrow> real \<Rightarrow> real" where
  "approach_angle cur tgt inc =
     (let d = py_fmod (tgt - cur + 180) 360 - 180
      in if d > inc then cur + inc
         else if d < - inc then cur - inc
         else tgt)"

definition sins :: "real \<Rightarrow> real" where
  "sins d = sin (d * pi / 180)"

definition coss :: "real \<Rightarrow> real" where
  "coss d = cos (d * pi / 180)"

subsection \<open>Action ids, constants, input bits\<close>

definition ACT_IDLE :: int where "ACT_IDLE = 0x001"
definition ACT_WALKING :: int where "ACT_WALKING = 0x004"
definition ACT_DECEL :: int where "ACT_DECEL = 0x005"
definition ACT_CROUCH :: int where "ACT_CROUCH = 0x008"
definition ACT_JUMP :: int where "ACT_JUMP = 0x010"
definition ACT_DBL_JUMP :: int where "ACT_DBL_JUMP = 0x011"
definition ACT_TRIPLE :: int where "ACT_TRIPLE = 0x012"
definition ACT_BACKFLIP :: int where "ACT_BACKFLIP = 0x013"
definition ACT_LONG_JUMP :: int where "ACT_LONG_JUMP = 0x014"
definition ACT_WALLKICK :: int where "ACT_WALLKICK = 0x015"
definition ACT_SIDEFLIP :: int where "ACT_SIDEFLIP = 0x016"
definition ACT_FREEFALL :: int where "ACT_FREEFALL = 0x018"
definition ACT_DIVE :: int where "ACT_DIVE = 0x01A"
definition ACT_BELLY_SLIDE :: int where "ACT_BELLY_SLIDE = 0x01B"
definition ACT_GROUND_POUND :: int where "ACT_GROUND_POUND = 0x025"
definition ACT_GP_LAND :: int where "ACT_GP_LAND = 0x026"
definition ACT_KNOCKBACK :: int where "ACT_KNOCKBACK = 0x040"
definition ACT_LAVA_BOOST :: int where "ACT_LAVA_BOOST = 0x042"
definition ACT_STAR_DANCE :: int where "ACT_STAR_DANCE = 0x050"
definition ACT_DEATH :: int where "ACT_DEATH = 0x051"

lemmas ACT_defs =
  ACT_IDLE_def ACT_WALKING_def ACT_DECEL_def ACT_CROUCH_def ACT_JUMP_def ACT_DBL_JUMP_def
  ACT_TRIPLE_def ACT_BACKFLIP_def ACT_LONG_JUMP_def ACT_WALLKICK_def ACT_SIDEFLIP_def
  ACT_FREEFALL_def ACT_DIVE_def ACT_BELLY_SLIDE_def ACT_GROUND_POUND_def ACT_GP_LAND_def
  ACT_KNOCKBACK_def ACT_LAVA_BOOST_def ACT_STAR_DANCE_def ACT_DEATH_def

definition GRAVITY :: real where "GRAVITY = - 4"
definition MAX_FALL :: real where "MAX_FALL = - 75"
definition MAX_WALK :: real where "MAX_WALK = 32"
definition AIR_DRAG :: real where "AIR_DRAG = 98 / 100"

definition IN_A :: int where "IN_A = 0x01"
definition IN_B :: int where "IN_B = 0x02"
definition IN_Z :: int where "IN_Z = 0x04"
definition IN_A_D :: int where "IN_A_D = 0x10"
definition IN_Z_D :: int where "IN_Z_D = 0x40"

lemmas IN_defs = IN_A_def IN_B_def IN_Z_def IN_A_D_def IN_Z_D_def

record Controller =
  stick_x :: real
  stick_y :: real
  stick_mag :: real
  pressed :: int
  down :: int

record Surface =
  verts :: "Vec3f list"
  normal :: Vec3f
  stype :: int
  color :: "int \<times> int \<times> int"
  warp :: int

record MarioState =
  pos :: Vec3f
  vel :: Vec3f
  fvel :: real
  face :: Vec3s
  action :: int
  prev_act :: int
  astate :: int
  atimer :: int
  health :: int
  coins :: int
  stars :: int
  lives :: int
  floor_m :: "Surface option"
  floor_y :: real
  wall :: "Surface option"
  imag :: real
  iyaw :: real
  peak_y :: real
  jcount :: int
  jtimer :: int
  wktimer :: int
  hurt :: int
  inv_m :: int
  lvl_stars :: "int \<rightharpoonup> int set"

subsection \<open>Methods of \<^verbatim>\<open>MarioState\<close>\<close>

definition set_act :: "MarioState \<Rightarrow> int \<Rightarrow> MarioState" where
  "set_act m a = m\<lparr>prev_act := action m, action := a, astate := 0, atimer := 0\<rparr>"

definition heal :: "MarioState \<Rightarrow> int \<Rightarrow> MarioState" where
  "heal m amt = m\<lparr>health := min 0x880 (health m + amt)\<rparr>"

definition take_dmg :: "MarioState \<Rightarrow> int \<Rightarrow> MarioState" where
  "take_dmg m amt =
     (if inv_m m > 0 then m
      else m\<lparr>health := max 0 (health m - amt), hurt := 10, inv_m := 60\<rparr>)"

definition wedges :: "MarioState \<Rightarrow> int" where
  "wedges m = (drop_bit 8 (health m)) AND 0xF"

definition has_star :: "MarioState \<Rightarrow> int \<Rightarrow> int \<Rightarrow> bool" where
  "has_star m l s = (s \<in> (case lvl_stars m l of None \<Rightarrow> {} | Some ss \<Rightarrow> ss))"

definition get_star :: "MarioState \<Rightarrow> int \<Rightarrow> int \<Rightarrow> MarioState" where
  "get_star m l s =
     (let m1 = (if lvl_stars m l = None then m\<lparr>lvl_stars := (lvl_stars m)(l \<mapsto> {})\<rparr> else m);
          ss = (case lvl_stars m1 l of None \<Rightarrow> {} | Some t \<Rightarrow> t)
      in if s \<notin> ss then m1\<lparr>lvl_stars := (lvl_stars m1)(l \<mapsto> insert s ss), stars := stars m1 + 1\<rparr>
         else m1)"

text \<open>
  A call of \<^verbatim>\<open>heal\<close> or \<^verbatim>\<open>take_dmg\<close>, or the end of a logic tick, where the main loop
  counts the timers down (\<^verbatim>\<open>if mario.inv>0: mario.inv-=1\<close>, the same for \<^verbatim>\<open>hurt\<close>); and a
  sequence of them.
\<close>

datatype hp_call = Heal int | TakeDmg int | Tick

fun hp_amount :: "hp_call \<Rightarrow> int" where
  "hp_amount (Heal a) = a"
| "hp_amount (TakeDmg a) = a"
| "hp_amount Tick = 0"

fun run_call :: "MarioState \<Rightarrow> hp_call \<Rightarrow> MarioState" where
  "run_call m (Heal a) = heal m a"
| "run_call m (TakeDmg a) = take_dmg m a"
| "run_call m Tick =
     m\<lparr>inv_m := (if inv_m m > 0 then inv_m m - 1 else inv_m m),
       hurt := (if hurt m > 0 then hurt m - 1 else hurt m)\<rparr>"

definition run_calls :: "MarioState \<Rightarrow> hp_call list \<Rightarrow> MarioState" where
  "run_calls m cs = foldl run_call m cs"

definition mario0 :: MarioState where
  "mario0 = \<lparr>pos = \<lparr>vx = 0, vy = 0, vz = 0\<rparr>, vel = \<lparr>vx = 0, vy = 0, vz = 0\<rparr>, fvel = 0,
     face = \<lparr>sx = 0, sy = 0, sz = 0\<rparr>, action = ACT_IDLE, prev_act = ACT_IDLE, astate = 0,
     atimer = 0, health = 0x880, coins = 0, stars = 0, lives = 4, floor_m = None,
     floor_y = - 10000, wall = None, imag = 0, iyaw = 0, peak_y = 0, jcount = 0, jtimer = 0,
     wktimer = 0, hurt = 0, inv_m = 0, lvl_stars = Map.empty\<rparr>"

section \<open>Collision queries\<close>

text \<open>Python's \<^verbatim>\<open>min\<close> and \<^verbatim>\<open>max\<close> of a sequence raise \<^verbatim>\<open>ValueError\<close> on an empty one.\<close>

fun py_min :: "real list \<Rightarrow> real option" where
  "py_min [] = None"
| "py_min (a # as) = Some (foldl min a as)"

fun py_max :: "real list \<Rightarrow> real option" where
  "py_max [] = None"
| "py_max (a # as) = Some (foldl max a as)"

text \<open>
  \<^verbatim>\<open>find_floor\<close>: the loop over the global surface list (here a parameter), with the
  running best height \<open>h\<close> and floor \<open>fl\<close>. The result is \<^term>\<open>None\<close> when the loop raises.
\<close>

fun find_floor_loop ::
  "Surface list \<Rightarrow> real \<Rightarrow> real \<Rightarrow> real \<Rightarrow> real \<times> Surface option \<Rightarrow> (real \<times> Surface option) option"
where
  "find_floor_loop [] x y z (h, fl) = Some (h, fl)"
| "find_floor_loop (s # ss) x y z (h, fl) =
     (case py_min (map vx (verts s)) of None \<Rightarrow> None | Some ax \<Rightarrow>
      case py_max (map vx (verts s)) of None \<Rightarrow> None | Some bx \<Rightarrow>
      case py_min (map vz (verts s)) of None \<Rightarrow> None | Some az \<Rightarrow>
      case py_max (map vz (verts s)) of None \<Rightarrow> None | Some bz \<Rightarrow>
        (let mnx = ax - 10; mxx = bx + 10; mnz = az - 10; mxz = bz + 10
         in if x < mnx \<or> x > mxx \<or> z < mnz \<or> z > mxz then find_floor_loop ss x y z (h, fl)
            else
              (let ny = vy (normal s)
               in if \<bar>ny\<bar> < 1 / 100 then find_floor_loop ss x y z (h, fl)
                  else
                    (case verts s of [] \<Rightarrow> None | p1 # _ \<Rightarrow>
                      (let nx = vx (normal s); nz = vz (normal s);
                           d = - (x * nx + z * nz - (nx * vx p1 + ny * vy p1 + nz * vz p1));
                           sy = d / ny
                       in if h < sy \<and> sy \<le> y + 150 then find_floor_loop ss x y z (sy, Some s)
                          else find_floor_loop ss x y z (h, fl))))))"

definition find_floor ::
  "Surface list \<Rightarrow> real \<Rightarrow> real \<Rightarrow> real \<Rightarrow> (real \<times> Surface option) option" where
  "find_floor surfs x y z = find_floor_loop surfs x y z (- 11000, None)"

text \<open>\<^verbatim>\<open>find_wall\<close>: the outer option is the exception, the inner one Python's \<^verbatim>\<open>None\<close>.\<close>

fun find_wall_loop ::
  "Surface list \<Rightarrow> real \<Rightarrow> real \<Rightarrow> real \<Rightarrow> real \<Rightarrow> real \<Rightarrow> Surface option option"
where
  "find_wall_loop [] x y z tx tz = Some None"
| "find_wall_loop (s # ss) x y z tx tz =
     (let ny = vy (normal s)
      in if \<bar>ny\<bar> > 7 / 10 then find_wall_loop ss x y z tx tz
         else
           (case py_min (map vy (verts s)) of None \<Rightarrow> None | Some ay \<Rightarrow>
            case py_max (map vy (verts s)) of None \<Rightarrow> None | Some by \<Rightarrow>
              (let mny = ay - 10; mxy = by + 10
               in if y < mny \<or> y > mxy then find_wall_loop ss x y z tx tz
                  else
                    (case verts s of [] \<Rightarrow> None | p1 # _ \<Rightarrow>
                      (let nx = vx (normal s); nz = vz (normal s);
                           d1 = (x - vx p1) * nx + (z - vz p1) * nz;
                           d2 = (tx - vx p1) * nx + (tz - vz p1) * nz
                       in if d1 > 0 \<and> d2 \<le> 0 then Some (Some s)
                          else find_wall_loop ss x y z tx tz)))))"

definition find_wall ::
  "Surface list \<Rightarrow> real \<Rightarrow> real \<Rightarrow> real \<Rightarrow> real \<Rightarrow> real \<Rightarrow> Surface option option" where
  "find_wall surfs x y z dx dz = find_wall_loop surfs x y z (x + dx * 2) (z + dz * 2)"

subsection \<open>The notions the floor query is specified with\<close>

text \<open>Every surface the builders make has four vertices; the queries need at least one.\<close>

definition wf_surfs :: "Surface list \<Rightarrow> bool" where
  "wf_surfs surfs = list_all (\<lambda>s. verts s \<noteq> []) surfs"

text \<open>The bounding rectangle of the vertices in x and z, grown by the margin 10.\<close>

definition in_rect :: "Surface \<Rightarrow> real \<Rightarrow> real \<Rightarrow> bool" where
  "in_rect s x z =
     (Min (set (map vx (verts s))) - 10 \<le> x \<and> x \<le> Max (set (map vx (verts s))) + 10 \<and>
      Min (set (map vz (verts s))) - 10 \<le> z \<and> z \<le> Max (set (map vz (verts s))) + 10)"

definition floor_eligible :: "Surface \<Rightarrow> bool" where
  "floor_eligible s = (\<bar>vy (normal s)\<bar> \<ge> 1 / 100)"

text \<open>The height of the surface's plane above \<open>(x, z)\<close>, from its first vertex and normal.\<close>

definition plane_y :: "Surface \<Rightarrow> real \<Rightarrow> real \<Rightarrow> real" where
  "plane_y s x z =
     - (x * vx (normal s) + z * vz (normal s)
        - (vx (normal s) * vx (hd (verts s)) + vy (normal s) * vy (hd (verts s))
           + vz (normal s) * vz (hd (verts s)))) / vy (normal s)"

text \<open>A surface qualifies for the query \<open>(x, y, z)\<close> in the sense of the specification.\<close>

definition qualifies :: "Surface \<Rightarrow> real \<Rightarrow> real \<Rightarrow> real \<Rightarrow> bool" where
  "qualifies s x y z = (in_rect s x z \<and> floor_eligible s \<and> plane_y s x z \<le> y + 150)"

text \<open>A flat square floor of half-width 100 at height \<open>h\<close>, with the vertex order and the
  normal of the top face that \<^verbatim>\<open>make_box\<close> builds.\<close>

definition flat_floor :: "real \<Rightarrow> Surface" where
  "flat_floor h =
     \<lparr>verts = [\<lparr>vx = - 100, vy = h, vz = - 100\<rparr>, \<lparr>vx = 100, vy = h, vz = - 100\<rparr>,
               \<lparr>vx = 100, vy = h, vz = 100\<rparr>, \<lparr>vx = - 100, vy = h, vz = 100\<rparr>],
      normal = \<lparr>vx = 0, vy = 1, vz = 0\<rparr>, stype = 0, color = (200, 200, 200), warp = - 1\<rparr>"

section \<open>Physics steps\<close>

text \<open>What a physics step reports: the strings \<^verbatim>\<open>'land'\<close>, \<^verbatim>\<open>'wall'\<close>, \<^verbatim>\<open>'air'\<close> of
  \<^verbatim>\<open>air_step\<close> and \<^verbatim>\<open>'air'\<close>, \<^verbatim>\<open>'ground'\<close> of \<^verbatim>\<open>ground_step\<close>.\<close>

datatype step_result = Land | Wall | Air | Ground

definition update_air :: "MarioState \<Rightarrow> MarioState" where
  "update_air m =
     (let f = fvel m * AIR_DRAG;
          vy1 = vy (vel m) + GRAVITY
      in m\<lparr>fvel := f,
           vel := \<lparr>vx = f * sins (sy (face m)),
                   vy = (if vy1 < MAX_FALL then MAX_FALL else vy1),
                   vz = f * coss (sy (face m))\<rparr>\<rparr>)"

definition set_fvel :: "MarioState \<Rightarrow> real \<Rightarrow> MarioState" where
  "set_fvel m s =
     m\<lparr>fvel := s, vel := (vel m)\<lparr>vx := s * sins (sy (face m)), vz := s * coss (sy (face m))\<rparr>\<rparr>"

definition ground_step :: "Surface list \<Rightarrow> MarioState \<Rightarrow> (step_result \<times> MarioState) option" where
  "ground_step surfs m =
     (let m1 = m\<lparr>pos := (pos m)\<lparr>vx := vx (pos m) + vx (vel m), vz := vz (pos m) + vz (vel m)\<rparr>\<rparr>
      in case find_floor surfs (vx (pos m1)) (vy (pos m1) + 100) (vz (pos m1)) of
           None \<Rightarrow> None
         | Some (fy, fl) \<Rightarrow>
             (let m2 = m1\<lparr>floor_m := fl, floor_y := fy\<rparr>
              in if vy (pos m2) > fy + 10 then Some (Air, m2)
                 else Some (Ground, m2\<lparr>pos := (pos m2)\<lparr>vy := fy\<rparr>\<rparr>)))"

text \<open>The body of the loop \<^verbatim>\<open>for _ in range(4)\<close> of \<^verbatim>\<open>air_step\<close>, with the number of
  iterations left.\<close>

fun air_loop ::
  "Surface list \<Rightarrow> real \<Rightarrow> real \<Rightarrow> real \<Rightarrow> nat \<Rightarrow> MarioState \<Rightarrow> (step_result \<times> MarioState) option"
where
  "air_loop surfs qx qy qz 0 m = Some (Air, m)"
| "air_loop surfs qx qy qz (Suc n) m =
     (let m1 = m\<lparr>pos := \<lparr>vx = vx (pos m) + qx, vy = vy (pos m) + qy, vz = vz (pos m) + qz\<rparr>\<rparr>
      in case find_floor surfs (vx (pos m1)) (vy (pos m1)) (vz (pos m1)) of
           None \<Rightarrow> None
         | Some (fy, fl) \<Rightarrow>
             (let m2 = m1\<lparr>floor_m := fl, floor_y := fy\<rparr>
              in if vy (pos m2) \<le> fy then Some (Land, m2\<lparr>pos := (pos m2)\<lparr>vy := fy\<rparr>\<rparr>)
                 else
                   (case find_wall surfs (vx (pos m2)) (vy (pos m2) + 50) (vz (pos m2))
                           (sins (sy (face m2))) (coss (sy (face m2))) of
                      None \<Rightarrow> None
                    | Some (Some w) \<Rightarrow>
                        Some (Wall, m2\<lparr>wall := Some w, vel := (vel m2)\<lparr>vx := 0, vz := 0\<rparr>, fvel := 0\<rparr>)
                    | Some None \<Rightarrow> air_loop surfs qx qy qz n m2)))"

definition air_step :: "Surface list \<Rightarrow> MarioState \<Rightarrow> (step_result \<times> MarioState) option" where
  "air_step surfs m = air_loop surfs (vx (vel m) / 4) (vy (vel m) / 4) (vz (vel m) / 4) 4 m"

section \<open>Actions\<close>

text \<open>
  A handler \<^verbatim>\<open>a_xxx(m, c)\<close> mutates the state; here it returns the new state, together
  with what the physics step it ran reported (\<^term>\<open>None\<close> when it ran none), or
  \<^term>\<open>None\<close> when an exception is raised.
\<close>

type_synonym handler =
  "Surface list \<Rightarrow> MarioState \<Rightarrow> Controller \<Rightarrow> (MarioState \<times> step_result option) option"

definition stop_xz :: "MarioState \<Rightarrow> MarioState" where
  \<comment> \<open>\<^verbatim>\<open>m.fvel=0; m.vel.x=m.vel.z=0\<close>\<close>
  "stop_xz m = m\<lparr>fvel := 0, vel := (vel m)\<lparr>vx := 0, vz := 0\<rparr>\<rparr>"

definition land_act :: "Controller \<Rightarrow> int" where
  \<comment> \<open>\<^verbatim>\<open>ACT_WALKING if c.stick_mag>0 else ACT_IDLE\<close>\<close>
  "land_act c = (if stick_mag c > 0 then ACT_WALKING else ACT_IDLE)"

definition a_idle :: handler where
  "a_idle surfs m c =
     (let m1 = stop_xz m
      in if pressed c AND IN_A \<noteq> 0 then Some (set_act (m1\<lparr>jcount := 0\<rparr>) ACT_JUMP, None)
         else if pressed c AND IN_Z \<noteq> 0 then Some (set_act m1 ACT_CROUCH, None)
         else if pressed c AND IN_B \<noteq> 0 then Some (set_act m1 ACT_DIVE, None)
         else if stick_mag c > 0 then Some (set_act m1 ACT_WALKING, None)
         else (case ground_step surfs m1 of None \<Rightarrow> None
               | Some (r, m2) \<Rightarrow> Some (m2, Some r)))"

definition a_walk :: handler where
  "a_walk surfs m c =
     (if pressed c AND IN_A \<noteq> 0 then
        (if fvel m > 10 \<and> down c AND IN_Z_D \<noteq> 0 then Some (set_act m ACT_LONG_JUMP, None)
         else
           (let m1 = m\<lparr>jtimer := 5, jcount := jcount m + 1\<rparr>
            in if jcount m1 \<ge> 3 \<and> fvel m1 > 15 then Some (set_act m1 ACT_TRIPLE, None)
               else if jcount m1 \<ge> 2 then Some (set_act m1 ACT_DBL_JUMP, None)
               else Some (set_act m1 ACT_JUMP, None)))
      else if pressed c AND IN_B \<noteq> 0 then Some (set_act m ACT_DIVE, None)
      else if stick_mag c = 0 then Some (set_act m ACT_DECEL, None)
      else
        (let m1 = m\<lparr>face := (face m)\<lparr>sy := approach_angle (sy (face m)) (iyaw m) (45 / 4)\<rparr>\<rparr>;
             tgt = stick_mag c * MAX_WALK;
             m2 = set_fvel m1 (if fvel m1 < tgt then min (fvel m1 + 3 / 2) tgt
                               else max (fvel m1 - 1) tgt)
         in case ground_step surfs m2 of None \<Rightarrow> None
            | Some (r, m3) \<Rightarrow>
                (let m4 = (if r = Air then set_act m3 ACT_FREEFALL else m3);
                     m5 = (if jtimer m4 > 0 then m4\<lparr>jtimer := jtimer m4 - 1\<rparr>
                           else m4\<lparr>jcount := 0\<rparr>)
                 in Some (m5, Some r))))"

definition a_decel :: handler where
  "a_decel surfs m c =
     (if pressed c AND IN_A \<noteq> 0 then
        Some (set_act m (if fvel m > 8 then ACT_SIDEFLIP else ACT_JUMP), None)
      else if stick_mag c > 0 then Some (set_act m ACT_WALKING, None)
      else
        (let m1 = set_fvel m (approach_f32 (fvel m) 0 2);
             m2 = (if \<bar>fvel m1\<bar> < 1 / 2 then set_act m1 ACT_IDLE else m1)
         in case ground_step surfs m2 of None \<Rightarrow> None
            | Some (r, m3) \<Rightarrow> Some (m3, Some r)))"

definition a_crouch :: handler where
  "a_crouch surfs m c =
     (let m1 = stop_xz m
      in if \<not> (down c AND IN_Z_D \<noteq> 0) then Some (set_act m1 ACT_IDLE, None)
         else if pressed c AND IN_A \<noteq> 0 then Some (set_act m1 ACT_BACKFLIP, None)
         else (case ground_step surfs m1 of None \<Rightarrow> None
               | Some (r, m2) \<Rightarrow> Some (m2, Some r)))"

definition a_jump :: handler where
  "a_jump surfs m c =
     (let m1 = (if atimer m = 0
                then m\<lparr>vel := (vel m)\<lparr>vy := 42 + \<bar>fvel m\<bar> * (1 / 4)\<rparr>, peak_y := vy (pos m)\<rparr>
                else m)
      in if pressed c AND IN_Z \<noteq> 0 then Some (set_act m1 ACT_GROUND_POUND, None)
         else if pressed c AND IN_B \<noteq> 0 then Some (set_act m1 ACT_DIVE, None)
         else (case air_step surfs (update_air m1) of None \<Rightarrow> None
               | Some (r, m2) \<Rightarrow>
                   (let m3 = (if r = Land then set_act m2 (land_act c)
                              else if r = Wall then set_act (m2\<lparr>wktimer := 5\<rparr>) ACT_FREEFALL
                              else m2)
                    in Some (m3\<lparr>atimer := atimer m3 + 1\<rparr>, Some r))))"

definition a_dbl :: handler where
  "a_dbl surfs m c =
     (let m1 = (if atimer m = 0
                then m\<lparr>vel := (vel m)\<lparr>vy := 52 + \<bar>fvel m\<bar> * (1 / 5)\<rparr>, peak_y := vy (pos m)\<rparr>
                else m)
      in if pressed c AND IN_Z \<noteq> 0 then Some (set_act m1 ACT_GROUND_POUND, None)
         else if pressed c AND IN_B \<noteq> 0 then Some (set_act m1 ACT_DIVE, None)
         else (case air_step surfs (update_air m1) of None \<Rightarrow> None
               | Some (r, m2) \<Rightarrow>
                   (let m3 = (if r = Land then set_act m2 (land_act c)
                              else if r = Wall then set_act (m2\<lparr>wktimer := 5\<rparr>) ACT_FREEFALL
                              else m2)
                    in Some (m3\<lparr>atimer := atimer m3 + 1\<rparr>, Some r))))"

definition a_triple :: handler where
  "a_triple surfs m c =
     (let m1 = (if atimer m = 0
                then m\<lparr>vel := (vel m)\<lparr>vy := 69\<rparr>, peak_y := vy (pos m)\<rparr>
                else m)
      in if pressed c AND IN_Z \<noteq> 0 then Some (set_act m1 ACT_GROUND_POUND, None)
         else (case air_step surfs (update_air m1) of None \<Rightarrow> None
               | Some (r, m2) \<Rightarrow>
                   (let m3 = (if r = Land then set_act m2 (land_act c) else m2)
                    in Some (m3\<lparr>atimer := atimer m3 + 1\<rparr>, Some r))))"

definition a_backflip :: handler where
  "a_backflip surfs m c =
     (let m1 = (if atimer m = 0 then set_fvel (m\<lparr>vel := (vel m)\<lparr>vy := 62\<rparr>, fvel := - 10\<rparr>) (- 10)
                else m)
      in case air_step surfs (update_air m1) of None \<Rightarrow> None
         | Some (r, m2) \<Rightarrow>
             (let m3 = (if r = Land then set_act (m2\<lparr>fvel := 0\<rparr>) ACT_IDLE else m2)
              in Some (m3\<lparr>atimer := atimer m3 + 1\<rparr>, Some r)))"

definition a_sideflip :: handler where
  "a_sideflip surfs m c =
     (let m1 = (if atimer m = 0
                then set_fvel (m\<lparr>vel := (vel m)\<lparr>vy := 62\<rparr>,
                                 face := (face m)\<lparr>sy := py_fmod (sy (face m) + 180) 360\<rparr>,
                                 fvel := 8\<rparr>) 8
                else m)
      in case air_step surfs (update_air m1) of None \<Rightarrow> None
         | Some (r, m2) \<Rightarrow>
             (let m3 = (if r = Land then set_act m2 ACT_IDLE else m2)
              in Some (m3\<lparr>atimer := atimer m3 + 1\<rparr>, Some r)))"

definition a_longjump :: handler where
  "a_longjump surfs m c =
     (let m1 = (if atimer m = 0
                then set_fvel (m\<lparr>vel := (vel m)\<lparr>vy := 30\<rparr>, fvel := min (fvel m * (3 / 2)) 48\<rparr>)
                       (min (fvel m * (3 / 2)) 48)
                else m)
      in case air_step surfs (update_air m1) of None \<Rightarrow> None
         | Some (r, m2) \<Rightarrow>
             (let m3 = (if r = Land then set_act (m2\<lparr>fvel := 0\<rparr>) ACT_IDLE else m2)
              in Some (m3\<lparr>atimer := atimer m3 + 1\<rparr>, Some r)))"

definition a_freefall :: handler where
  "a_freefall surfs m c =
     (if pressed c AND IN_A \<noteq> 0 \<and> wktimer m > 0 then
        Some (set_act (set_fvel (m\<lparr>face := (face m)\<lparr>sy := py_fmod (sy (face m) + 180) 360\<rparr>,
                                   fvel := 24\<rparr>) 24) ACT_WALLKICK, None)
      else if pressed c AND IN_Z \<noteq> 0 then Some (set_act m ACT_GROUND_POUND, None)
      else if pressed c AND IN_B \<noteq> 0 then Some (set_act m ACT_DIVE, None)
      else (case air_step surfs (update_air m) of None \<Rightarrow> None
            | Some (r, m2) \<Rightarrow>
                (let m3 = (if r = Land then set_act m2 (land_act c)
                           else if r = Wall then m2\<lparr>wktimer := 5\<rparr>
                           else m2);
                     m4 = (if wktimer m3 > 0 then m3\<lparr>wktimer := wktimer m3 - 1\<rparr> else m3)
                 in Some (m4\<lparr>atimer := atimer m4 + 1\<rparr>, Some r))))"

definition a_wallkick :: handler where
  "a_wallkick surfs m c =
     (let m1 = (if atimer m = 0 then m\<lparr>vel := (vel m)\<lparr>vy := 52\<rparr>\<rparr> else m)
      in case air_step surfs (update_air m1) of None \<Rightarrow> None
         | Some (r, m2) \<Rightarrow>
             (let m3 = (if r = Land then set_act m2 (land_act c) else m2)
              in Some (m3\<lparr>atimer := atimer m3 + 1\<rparr>, Some r)))"

definition a_dive :: handler where
  "a_dive surfs m c =
     (let m1 = (if atimer m = 0
                then set_fvel (m\<lparr>vel := (vel m)\<lparr>vy := 10\<rparr>, fvel := max (fvel m) 32\<rparr>)
                       (max (fvel m) 32)
                else m)
      in case air_step surfs (update_air m1) of None \<Rightarrow> None
         | Some (r, m2) \<Rightarrow>
             (let m3 = (if r = Land then set_act m2 ACT_BELLY_SLIDE else m2)
              in Some (m3\<lparr>atimer := atimer m3 + 1\<rparr>, Some r)))"

definition a_belly :: handler where
  "a_belly surfs m c =
     (if pressed c AND IN_A \<noteq> 0 then Some (set_act m ACT_JUMP, None)
      else
        (let m1 = set_fvel m (approach_f32 (fvel m) 0 1);
             m2 = (if \<bar>fvel m1\<bar> < 1 then set_act m1 ACT_IDLE else m1)
         in case ground_step surfs m2 of None \<Rightarrow> None
            | Some (r, m3) \<Rightarrow> Some (m3, Some r)))"

definition a_gp :: handler where
  "a_gp surfs m c =
     (if astate m = 0 then
        (let m1 = (stop_xz m)\<lparr>vel := (vel (stop_xz m))\<lparr>vy := 0\<rparr>\<rparr>;
             m2 = m1\<lparr>atimer := atimer m1 + 1\<rparr>
         in if atimer m2 > 10 then Some (m2\<lparr>astate := 1, vel := (vel m2)\<lparr>vy := - 60\<rparr>\<rparr>, None)
            else Some (m2, None))
      else (case air_step surfs m of None \<Rightarrow> None
            | Some (r, m2) \<Rightarrow>
                Some (if r = Land then set_act m2 ACT_GP_LAND else m2, Some r)))"

definition a_gpl :: handler where
  "a_gpl surfs m c =
     (let m1 = m\<lparr>atimer := atimer m + 1\<rparr>
      in if atimer m1 > 5 then
           (if pressed c AND IN_A \<noteq> 0 then Some (set_act m1 ACT_JUMP, None)
            else if stick_mag c > 0 then Some (set_act m1 ACT_WALKING, None)
            else if atimer m1 > 15 then Some (set_act m1 ACT_IDLE, None)
            else Some (m1, None))
         else Some (m1, None))"

definition a_knock :: handler where
  "a_knock surfs m c =
     (let m1 = (if atimer m = 0 then set_fvel (m\<lparr>vel := (vel m)\<lparr>vy := 30\<rparr>, fvel := - 20\<rparr>) (- 20)
                else m)
      in case air_step surfs (update_air m1) of None \<Rightarrow> None
         | Some (r, m2) \<Rightarrow>
             (let m3 = (if r = Land then set_act (m2\<lparr>fvel := 0\<rparr>) ACT_IDLE else m2)
              in Some (m3\<lparr>atimer := atimer m3 + 1\<rparr>, Some r)))"

definition a_lava :: handler where
  "a_lava surfs m c =
     (let m1 = (if atimer m = 0
                then take_dmg (stop_xz (m\<lparr>vel := (vel m)\<lparr>vy := 60\<rparr>\<rparr>)) 0x100
                else m)
      in case air_step surfs (update_air m1) of None \<Rightarrow> None
         | Some (r, m2) \<Rightarrow>
             (let m3 = (if r = Land then set_act m2 ACT_IDLE else m2)
              in Some (m3\<lparr>atimer := atimer m3 + 1\<rparr>, Some r)))"

definition a_star :: handler where
  "a_star surfs m c =
     (let m1 = m\<lparr>fvel := 0, vel := \<lparr>vx = 0, vy = 0, vz = 0\<rparr>, atimer := atimer m + 1\<rparr>
      in if atimer m1 > 90 then Some (set_act m1 ACT_IDLE, None) else Some (m1, None))"

definition a_death :: handler where
  "a_death surfs m c =
     (let m1 = stop_xz m;
          m2 = m1\<lparr>vel := (vel m1)\<lparr>vy := max (vy (vel m1) + GRAVITY) MAX_FALL\<rparr>\<rparr>
      in Some (m2\<lparr>pos := (pos m2)\<lparr>vy := vy (pos m2) + vy (vel m2)\<rparr>\<rparr>, None))"

text \<open>The dispatch table, and the dispatch of the logic tick:
  \<^verbatim>\<open>fn=ACT_MAP.get(mario.action,a_idle); fn(mario,ctrl)\<close>.\<close>

definition ACT_TABLE :: "(int \<times> handler) list" where
  "ACT_TABLE =
     [(ACT_IDLE, a_idle), (ACT_WALKING, a_walk), (ACT_DECEL, a_decel), (ACT_CROUCH, a_crouch),
      (ACT_JUMP, a_jump), (ACT_DBL_JUMP, a_dbl), (ACT_TRIPLE, a_triple),
      (ACT_BACKFLIP, a_backflip), (ACT_SIDEFLIP, a_sideflip), (ACT_LONG_JUMP, a_longjump),
      (ACT_WALLKICK, a_wallkick), (ACT_FREEFALL, a_freefall), (ACT_DIVE, a_dive),
      (ACT_BELLY_SLIDE, a_belly), (ACT_GROUND_POUND, a_gp), (ACT_GP_LAND, a_gpl),
      (ACT_KNOCKBACK, a_knock), (ACT_LAVA_BOOST, a_lava), (ACT_STAR_DANCE, a_star),
      (ACT_DEATH, a_death)]"

definition ACT_MAP :: "int \<rightharpoonup> handler" where
  "ACT_MAP = map_of ACT_TABLE"

definition dispatch :: handler where
  "dispatch surfs m c =
     (case ACT_MAP (action m) of None \<Rightarrow> a_idle surfs m c | Some fn \<Rightarrow> fn surfs m c)"

text \<open>An input frame with nothing pressed and the stick at rest.\<close>

definition ctrl0 :: Controller where
  "ctrl0 = \<lparr>stick_x = 0, stick_y = 0, stick_mag = 0, pressed = 0, down = 0\<rparr>"

section \<open>The quarter steps of the air step\<close>

text \<open>The position \<open>k\<close> sub-steps of \<open>(qx, qy, qz)\<close> away from \<open>p\<close>.\<close>

definition step_pos :: "Vec3f \<Rightarrow> real \<Rightarrow> real \<Rightarrow> real \<Rightarrow> nat \<Rightarrow> Vec3f" where
  "step_pos p qx qy qz k =
     \<lparr>vx = vx p + real k * qx, vy = vy p + real k * qy, vz = vz p + real k * qz\<rparr>"

text \<open>The position after \<open>k\<close> quarters of the tick's displacement \<^verbatim>\<open>vel\<close>.\<close>

definition sub_pos :: "MarioState \<Rightarrow> nat \<Rightarrow> Vec3f" where
  "sub_pos m k = step_pos (pos m) (vx (vel m) / 4) (vy (vel m) / 4) (vz (vel m) / 4) k"

text \<open>At the position \<open>p\<close> the character is at or below the floor found there.\<close>

definition lands_at :: "Surface list \<Rightarrow> Vec3f \<Rightarrow> bool" where
  "lands_at surfs p =
     (case find_floor surfs (vx p) (vy p) (vz p) of None \<Rightarrow> False | Some (fy, fl) \<Rightarrow> vy p \<le> fy)"

text \<open>The wall query of the air step at the position \<open>p\<close>, facing the yaw \<open>a\<close>.\<close>

definition wall_query :: "Surface list \<Rightarrow> real \<Rightarrow> Vec3f \<Rightarrow> Surface option option" where
  "wall_query surfs a p = find_wall surfs (vx p) (vy p + 50) (vz p) (sins a) (coss a)"

definition hits_wall :: "Surface list \<Rightarrow> real \<Rightarrow> Vec3f \<Rightarrow> bool" where
  "hits_wall surfs a p = (case wall_query surfs a p of Some (Some w) \<Rightarrow> True | _ \<Rightarrow> False)"

text \<open>A sub-step that ends at \<open>p\<close> completes without landing and without a wall.\<close>

definition quiet :: "Surface list \<Rightarrow> real \<Rightarrow> Vec3f \<Rightarrow> bool" where
  "quiet surfs a p = (\<not> lands_at surfs p \<and> \<not> hits_wall surfs a p)"

text \<open>A character falling towards the floor from just above it.\<close>

definition m_fall :: MarioState where
  "m_fall = mario0\<lparr>pos := \<lparr>vx = 0, vy = 3, vz = 0\<rparr>, vel := \<lparr>vx = 0, vy = - 8, vz = 0\<rparr>\<rparr>"

text \<open>Inputs for the landing scenarios: the stick pushed, a character falling onto the
  floor in the middle of an action, and the state it lands in with the action \<open>a\<close>.\<close>

definition c_stick :: Controller where
  "c_stick = ctrl0\<lparr>stick_mag := 1\<rparr>"

definition m_air :: MarioState where
  "m_air = m_fall\<lparr>atimer := 1\<rparr>"

definition m_landed :: "int \<Rightarrow> MarioState" where
  "m_landed a =
     m_air\<lparr>pos := \<lparr>vx = 0, vy = 0, vz = 0\<rparr>, vel := \<lparr>vx = 0, vy = - 12, vz = 0\<rparr>,
           floor_m := Some (flat_floor 0), floor_y := 0, prev_act := ACT_IDLE, action := a,
           astate := 0, atimer := 1\<rparr>"

text \<open>The dispatch of several logic ticks in a row, one input frame each (the state
  machine alone, without the rest of the tick).\<close>

fun dispatch_seq :: "Surface list \<Rightarrow> Controller list \<Rightarrow> MarioState \<Rightarrow> MarioState option" where
  "dispatch_seq surfs [] m = Some m"
| "dispatch_seq surfs (c # cs) m =
     (case dispatch surfs m c of None \<Rightarrow> None | Some (m', r) \<Rightarrow> dispatch_seq surfs cs m')"

text \<open>Inputs for the jump scenarios: jump pressed with the stick pushed, the same with
  crouch held, and a character walking on the floor right after landing from its first
  jump (counter 1, timer 5).\<close>

definition c_jump :: Controller where
  "c_jump = c_stick\<lparr>pressed := IN_A\<rparr>"

definition c_jump_crouch :: Controller where
  "c_jump_crouch = c_stick\<lparr>pressed := IN_A, down := IN_Z_D\<rparr>"

definition m_walk :: MarioState where
  "m_walk = mario0\<lparr>action := ACT_WALKING, prev_act := ACT_JUMP, jcount := 1, jtimer := 5,
                   floor_m := Some (flat_floor 0), floor_y := 0\<rparr>"

definition m_triple :: MarioState where
  "m_triple = mario0\<lparr>action := ACT_TRIPLE, pos := \<lparr>vx = 0, vy = 0, vz = 0\<rparr>, fvel := 20\<rparr>"

section \<open>Actors and interaction resolution\<close>

datatype ObjType =
  COIN | COIN_RED | COIN_BLUE | STAR | GOOMBA | BOBOMB | BULLY | BOO | PIRANHA | KOOPA | AMP
  | THWOMP | CHAIN_CHOMP | KING_BOB | BIG_BOO | BOWSER | ONE_UP | TREE | PIPE | BOX

record Obj =
  o_type :: ObjType
  o_pos :: Vec3f
  o_vel :: Vec3f
  o_angle :: real
  o_radius :: real
  o_height :: real
  o_hp :: int
  o_active :: bool
  o_timer :: int
  o_state :: int
  o_home :: Vec3f
  o_color :: "int \<times> int \<times> int"
  o_collected :: bool
  o_irange :: real
  o_scale :: real
  o_dmg :: int
  o_coins :: int
  o_star_id :: int
  o_warp :: int
  o_spd :: real
  o_pdir :: int
  o_bob :: real
  o_flash :: int

text \<open>\<^verbatim>\<open>math.degrees(math.atan2(y, x))\<close>.\<close>

definition py_atan2 :: "real \<Rightarrow> real \<Rightarrow> real" where
  "py_atan2 y x =
     (if x > 0 then arctan (y / x)
      else if x < 0 \<and> y \<ge> 0 then arctan (y / x) + pi
      else if x < 0 then arctan (y / x) - pi
      else if y > 0 then pi / 2
      else if y < 0 then - (pi / 2)
      else 0)"

definition degrees :: "real \<Rightarrow> real" where
  "degrees r = r * 180 / pi"

text \<open>The distance \<^verbatim>\<open>d\<close> between the character and the actor.\<close>

definition obj_dist :: "MarioState \<Rightarrow> Obj \<Rightarrow> real" where
  "obj_dist m ob =
     (let dx = vx (pos m) - vx (o_pos ob); dy = vy (pos m) - vy (o_pos ob);
          dz = vz (pos m) - vz (o_pos ob)
      in sqrt (dx * dx + dy * dy + dz * dz))"

definition knockback :: "MarioState \<Rightarrow> int \<Rightarrow> MarioState" where
  \<comment> \<open>\<^verbatim>\<open>mario.take_dmg(amt); mario.set_act(ACT_KNOCKBACK)\<close>\<close>
  "knockback m amt = set_act (take_dmg m amt) ACT_KNOCKBACK"

text \<open>
  The body of the loop of \<^verbatim>\<open>interact_objs\<close> for one actor: the new character state, the
  new actor, and the warp target when the body returns \<^verbatim>\<open>('warp', o.warp)\<close>. The globals
  \<^verbatim>\<open>ctrl\<close> and \<^verbatim>\<open>cur_lvl\<close> are parameters. The particles the body emits (with random
  velocities) are only drawn and are left out.
\<close>

definition interact_one ::
  "Controller \<Rightarrow> int \<Rightarrow> MarioState \<Rightarrow> Obj \<Rightarrow> MarioState \<times> Obj \<times> int option" where
  "interact_one ctrl lvl m ob =
     (if \<not> o_active ob \<or> o_collected ob then (m, ob, None)
      else
        (let dx = vx (pos m) - vx (o_pos ob); dz = vz (pos m) - vz (o_pos ob);
             d = obj_dist m ob
         in if d > o_irange ob + 30 then (m, ob, None)
            else if o_type ob \<in> {COIN, COIN_RED, COIN_BLUE} then
              (heal (m\<lparr>coins := coins m + o_coins ob\<rparr>) (0x40 * o_coins ob),
               ob\<lparr>o_collected := True, o_active := False\<rparr>, None)
            else if o_type ob = STAR then
              (if \<not> has_star m lvl (o_star_id ob) then
                 (set_act (get_star m lvl (o_star_id ob)) ACT_STAR_DANCE,
                  ob\<lparr>o_collected := True, o_active := False\<rparr>, None)
               else (m, ob, None))
            else if o_type ob = ONE_UP then
              (m\<lparr>lives := lives m + 1\<rparr>, ob\<lparr>o_collected := True, o_active := False\<rparr>, None)
            else if o_type ob = PIPE then
              (if pressed ctrl AND IN_A \<noteq> 0 then (m, ob, Some (o_warp ob)) else (m, ob, None))
            else if o_type ob \<in> {GOOMBA, BOBOMB, KOOPA, PIRANHA} then
              (if vy (vel m) < - 5 \<and> vy (pos m) > vy (o_pos ob) + 20 then
                 (m\<lparr>vel := (vel m)\<lparr>vy := 30\<rparr>, coins := coins m + 1\<rparr>, ob\<lparr>o_active := False\<rparr>, None)
               else if action m \<in> {ACT_DIVE, ACT_GP_LAND} then
                 (m\<lparr>coins := coins m + 1\<rparr>, ob\<lparr>o_active := False\<rparr>, None)
               else (knockback m (0x100 * o_dmg ob), ob, None))
            else if o_type ob = BULLY then
              (if d < o_irange ob then
                 (m\<lparr>pos := (pos m)\<lparr>vx := vx (pos m) + dx / max d 1 * 20,
                                     vz := vz (pos m) + dz / max d 1 * 20\<rparr>,
                    fvel := 15\<rparr>, ob, None)
               else (m, ob, None))
            else if o_type ob \<in> {BOO, BIG_BOO} then
              (let fb = \<bar>degrees (py_atan2 (vx (o_pos ob) - vx (pos m)) (vz (o_pos ob) - vz (pos m)))
                          - sy (face m)\<bar> > 90
               in if fb \<and> action m \<in> {ACT_GROUND_POUND, ACT_GP_LAND} then
                    (let ob1 = ob\<lparr>o_hp := o_hp ob - 1, o_flash := 10\<rparr>
                     in (m, if o_hp ob1 \<le> 0 then ob1\<lparr>o_active := False\<rparr> else ob1, None))
                  else if \<not> fb \<and> d < o_irange ob then (knockback m 0x100, ob, None)
                  else (m, ob, None))
            else if o_type ob = AMP then (knockback m 0x100, ob, None)
            else if o_type ob = THWOMP then
              (if o_state ob = 1 \<and> d < o_irange ob then (knockback m 0x200, ob, None)
               else (m, ob, None))
            else if o_type ob = CHAIN_CHOMP then (knockback m 0x300, ob, None)
            else if o_type ob \<in> {KING_BOB, BOWSER} then
              (if vy (vel m) < - 5 \<and> vy (pos m) > vy (o_pos ob) + 30 then
                 (let ob1 = ob\<lparr>o_hp := o_hp ob - 1, o_flash := 15\<rparr>
                  in (m\<lparr>vel := (vel m)\<lparr>vy := 40\<rparr>\<rparr>,
                      if o_hp ob1 \<le> 0 then ob1\<lparr>o_active := False\<rparr> else ob1, None))
               else (knockback m 0x200, ob, None))
            else (m, ob, None)))"

text \<open>\<^verbatim>\<open>interact_objs\<close>: the loop over the actor list; a warp ends it at once and leaves the
  later actors as they are.\<close>

fun interact_objs ::
  "Controller \<Rightarrow> int \<Rightarrow> MarioState \<Rightarrow> Obj list \<Rightarrow> MarioState \<times> Obj list \<times> int option" where
  "interact_objs ctrl lvl m [] = (m, [], None)"
| "interact_objs ctrl lvl m (ob # obs) =
     (case interact_one ctrl lvl m ob of
        (m1, ob1, Some w) \<Rightarrow> (m1, ob1 # obs, Some w)
      | (m1, ob1, None) \<Rightarrow>
          (case interact_objs ctrl lvl m1 obs of (m2, obs2, r) \<Rightarrow> (m2, ob1 # obs2, r)))"

text \<open>The notions the collecting of an actor is specified with: the actor is a collectible,
  it is within collection range of the character, and the reward it grants.\<close>

definition collectible :: "Obj \<Rightarrow> bool" where
  "collectible ob = (o_type ob \<in> {COIN, COIN_RED, COIN_BLUE, STAR, ONE_UP})"

definition in_range :: "MarioState \<Rightarrow> Obj \<Rightarrow> bool" where
  "in_range m ob = (obj_dist m ob \<le> o_irange ob + 30)"

definition collected_obj :: "Obj \<Rightarrow> Obj" where
  "collected_obj ob = ob\<lparr>o_collected := True, o_active := False\<rparr>"

definition reward :: "int \<Rightarrow> MarioState \<Rightarrow> Obj \<Rightarrow> MarioState" where
  "reward lvl m ob =
     (if o_type ob = STAR then set_act (get_star m lvl (o_star_id ob)) ACT_STAR_DANCE
      else if o_type ob = ONE_UP then m\<lparr>lives := lives m + 1\<rparr>
      else heal (m\<lparr>coins := coins m + o_coins ob\<rparr>) (0x40 * o_coins ob))"

text \<open>A coin, a star and a one-up at the origin, where \<^term>\<open>mario0\<close> stands.\<close>

definition obj0 :: "ObjType \<Rightarrow> Obj" where
  "obj0 t =
     \<lparr>o_type = t, o_pos = \<lparr>vx = 0, vy = 0, vz = 0\<rparr>, o_vel = \<lparr>vx = 0, vy = 0, vz = 0\<rparr>,
      o_angle = 0, o_radius = 50, o_height = 50, o_hp = 1, o_active = True, o_timer = 0,
      o_state = 0, o_home = \<lparr>vx = 0, vy = 0, vz = 0\<rparr>, o_color = (255, 255, 0),
      o_collected = False, o_irange = 80, o_scale = 1, o_dmg = 1, o_coins = 0, o_star_id = 0,
      o_warp = - 1, o_spd = 3 / 2, o_pdir = 1, o_bob = 0, o_flash = 0\<rparr>"

definition coin5 :: Obj where
  "coin5 = (obj0 COIN_BLUE)\<lparr>o_coins := 5, o_irange := 60\<rparr>"

text \<open>A character that already holds star 0 of level 0, and one with reduced health.\<close>

definition m_star :: MarioState where
  "m_star = mario0\<lparr>stars := 1, lvl_stars := [0 \<mapsto> {0}]\<rparr>"

definition m_hurt :: MarioState where
  "m_hurt = mario0\<lparr>health := 0x400\<rparr>"

section \<open>Renderer\<close>





text \<open>The kind of an entry of \<^verbatim>\<open>rlist\<close>: the tags \<^verbatim>\<open>'e'\<close>, \<^verbatim>\<open>'o'\<close>, \<^verbatim>\<open>'m'\<close>, \<^verbatim>\<open>'s'\<close>, \<^verbatim>\<open>'p'\<close>.\<close>

datatype rtag = RE | RO | RM | RS | RP























section \<open>Properties of the floor query\<close>

lemma py_min_Some: "xs \<noteq> [] \<Longrightarrow> py_min xs = Some (Min (set xs))"
proof (cases xs)
  case Nil
  assume "xs \<noteq> []" with Nil show ?thesis by simp
next
  case (Cons a as)
  have "foldl min a as = fold min as a"
    by (simp add: foldl_conv_fold min.commute)
  then show ?thesis using Cons Min.set_eq_fold [of a as] by simp
qed

lemma py_max_Some: "xs \<noteq> [] \<Longrightarrow> py_max xs = Some (Max (set xs))"
proof (cases xs)
  case Nil
  assume "xs \<noteq> []" with Nil show ?thesis by simp
next
  case (Cons a as)
  have "foldl max a as = fold max as a"
    by (simp add: foldl_conv_fold max.commute)
  then show ?thesis using Cons Max.set_eq_fold [of a as] by simp
qed

lemma case_list_hd: "xs \<noteq> [] \<Longrightarrow> (case xs of [] \<Rightarrow> a | p # _ \<Rightarrow> f p) = f (hd xs)"
  by (cases xs) auto

lemma find_floor_loop_step:
  assumes "verts s \<noteq> []"
  shows "find_floor_loop (s # ss) x y z (h, fl) =
     (if in_rect s x z \<and> floor_eligible s \<and> h < plane_y s x z \<and> plane_y s x z \<le> y + 150
      then find_floor_loop ss x y z (plane_y s x z, Some s)
      else find_floor_loop ss x y z (h, fl))"
proof -
  have m: "map vx (verts s) \<noteq> []" "map vz (verts s) \<noteq> []" using assms by auto
  show ?thesis
    by (simp add: py_min_Some [OF m(1)] py_max_Some [OF m(1)] py_min_Some [OF m(2)]
        py_max_Some [OF m(2)] case_list_hd [OF assms] in_rect_def floor_eligible_def
        plane_y_def Let_def not_less not_le del: set_map)
qed


lemma find_floor_loop_inv:
  assumes "list_all (\<lambda>s. verts s \<noteq> []) surfs"
  shows "\<exists>h' fl'. find_floor_loop surfs x y z (h, fl) = Some (h', fl') \<and> h \<le> h' \<and>
     (\<forall>t\<in>set surfs. qualifies t x y z \<longrightarrow> plane_y t x z \<le> h') \<and>
     ((h' = h \<and> fl' = fl) \<or>
      (h < h' \<and> (\<exists>s. fl' = Some s \<and>
          List.find (\<lambda>t. qualifies t x y z \<and> plane_y t x z = h') surfs = Some s)))"
  using assms
proof (induction surfs arbitrary: h fl)
  case Nil
  then show ?case by simp
next
  case (Cons s ss)
  have v: "verts s \<noteq> []" and wf: "list_all (\<lambda>s. verts s \<noteq> []) ss"
    using Cons.prems by simp_all
  show ?case
  proof (cases "in_rect s x z \<and> floor_eligible s \<and> h < plane_y s x z \<and> plane_y s x z \<le> y + 150")
    case True
    then have q: "qualifies s x y z" by (simp add: qualifies_def)
    from Cons.IH [OF wf, of "plane_y s x z" "Some s"]
    obtain h' fl' where r: "find_floor_loop ss x y z (plane_y s x z, Some s) = Some (h', fl')"
      and le: "plane_y s x z \<le> h'"
      and ub: "\<forall>t\<in>set ss. qualifies t x y z \<longrightarrow> plane_y t x z \<le> h'"
      and alt: "(h' = plane_y s x z \<and> fl' = Some s) \<or>
        (plane_y s x z < h' \<and> (\<exists>s'. fl' = Some s' \<and>
          List.find (\<lambda>t. qualifies t x y z \<and> plane_y t x z = h') ss = Some s'))"
      by blast
    have "find_floor_loop (s # ss) x y z (h, fl) = Some (h', fl')"
      using True r by (simp add: find_floor_loop_step [OF v] del: find_floor_loop.simps)
    moreover have "h < h'" using True le by simp
    moreover have "\<forall>t\<in>set (s # ss). qualifies t x y z \<longrightarrow> plane_y t x z \<le> h'"
      using ub le by simp
    moreover have "\<exists>s'. fl' = Some s' \<and>
        List.find (\<lambda>t. qualifies t x y z \<and> plane_y t x z = h') (s # ss) = Some s'"
      using alt q by auto
    ultimately show ?thesis by (intro exI conjI) (auto simp del: find.simps)
  next
    case False
    from Cons.IH [OF wf, of h fl]
    obtain h' fl' where r: "find_floor_loop ss x y z (h, fl) = Some (h', fl')"
      and le: "h \<le> h'"
      and ub: "\<forall>t\<in>set ss. qualifies t x y z \<longrightarrow> plane_y t x z \<le> h'"
      and alt: "(h' = h \<and> fl' = fl) \<or>
        (h < h' \<and> (\<exists>s'. fl' = Some s' \<and>
          List.find (\<lambda>t. qualifies t x y z \<and> plane_y t x z = h') ss = Some s'))"
      by blast
    have low: "qualifies s x y z \<longrightarrow> plane_y s x z \<le> h"
      using False by (auto simp: qualifies_def)
    have "find_floor_loop (s # ss) x y z (h, fl) = Some (h', fl')"
      using False r by (auto simp add: find_floor_loop_step [OF v] simp del: find_floor_loop.simps)
    moreover have "\<forall>t\<in>set (s # ss). qualifies t x y z \<longrightarrow> plane_y t x z \<le> h'"
      using ub le low by auto
    moreover have "(h' = h \<and> fl' = fl) \<or>
        (h < h' \<and> (\<exists>s'. fl' = Some s' \<and>
          List.find (\<lambda>t. qualifies t x y z \<and> plane_y t x z = h') (s # ss) = Some s'))"
      using alt low by auto
    ultimately show ?thesis using le by (intro exI conjI) (auto simp del: find.simps)
  qed
qed

text \<open>
  C1, as stated, fails below the sentinel: the running best height starts at -11000 and is
  only replaced by a strictly greater one, so a qualifying surface whose plane lies at or
  below -11000 is never returned. A floor at height -12000 qualifies for the query point
  \<open>(0, -12000, 0)\<close>, yet the result is the sentinel pair.
\<close>

theorem find_floor_highest_counterexample:
  "wf_surfs [flat_floor (- 12000)]
   \<and> qualifies (flat_floor (- 12000)) 0 (- 12000) 0
   \<and> plane_y (flat_floor (- 12000)) 0 0 = - 12000
   \<and> find_floor [flat_floor (- 12000)] 0 (- 12000) 0 = Some (- 11000, None)"
  by (simp add: wf_surfs_def find_floor_def qualifies_def in_rect_def floor_eligible_def
      plane_y_def flat_floor_def)

text \<open>
  C1, amended. For every query point and every list of surfaces with at least one vertex
  each: if some surface qualifies (its grown bounding rectangle contains \<open>(x, z)\<close>, its
  \<open>|normal.y|\<close> is at least 0.01 and its plane height is at most \<open>y + 150\<close>) with a plane
  height above -11000, then \<^verbatim>\<open>find_floor\<close> returns the greatest plane height of the
  qualifying surfaces together with the first surface of the list that qualifies at that
  height; otherwise it returns the sentinel pair (-11000, no surface).
\<close>

theorem find_floor_highest:
  assumes "wf_surfs surfs"
  shows "if \<exists>s\<in>set surfs. qualifies s x y z \<and> - 11000 < plane_y s x z
     then \<exists>s. find_floor surfs x y z = Some (plane_y s x z, Some s) \<and>
            - 11000 < plane_y s x z \<and>
            List.find (\<lambda>t. qualifies t x y z \<and> plane_y t x z = plane_y s x z) surfs = Some s \<and>
            (\<forall>t\<in>set surfs. qualifies t x y z \<longrightarrow> plane_y t x z \<le> plane_y s x z)
     else find_floor surfs x y z = Some (- 11000, None)"
proof -
  from find_floor_loop_inv [of surfs x y z "- 11000" None] assms
  obtain h' fl' where r: "find_floor surfs x y z = Some (h', fl')"
    and ub: "\<forall>t\<in>set surfs. qualifies t x y z \<longrightarrow> plane_y t x z \<le> h'"
    and alt: "(h' = - 11000 \<and> fl' = None) \<or>
      (- 11000 < h' \<and> (\<exists>s. fl' = Some s \<and>
          List.find (\<lambda>t. qualifies t x y z \<and> plane_y t x z = h') surfs = Some s))"
    unfolding find_floor_def wf_surfs_def by blast
  show ?thesis
  proof (cases "\<exists>s\<in>set surfs. qualifies s x y z \<and> - 11000 < plane_y s x z")
    case True
    then have "- 11000 < h'" using ub by fastforce
    with alt obtain s where fl: "fl' = Some s"
      and f: "List.find (\<lambda>t. qualifies t x y z \<and> plane_y t x z = h') surfs = Some s"
      by auto
    from f have h: "plane_y s x z = h'" by (auto simp: find_Some_iff)
    show ?thesis using True r fl f h ub \<open>- 11000 < h'\<close> by auto
  next
    case False
    have "\<not> - 11000 < h'"
    proof
      assume "- 11000 < h'"
      with alt obtain s where
        f: "List.find (\<lambda>t. qualifies t x y z \<and> plane_y t x z = h') surfs = Some s"
        by auto
      then have "s \<in> set surfs \<and> qualifies s x y z \<and> plane_y s x z = h'"
        by (auto simp: find_Some_iff)
      with False \<open>- 11000 < h'\<close> show False by auto
    qed
    with alt r False show ?thesis by auto
  qed
qed

theorem find_floor_highest_witness:
  "wf_surfs [flat_floor 0, flat_floor 100, (flat_floor 100)\<lparr>stype := 1\<rparr>, flat_floor 500]
   \<and> find_floor [flat_floor 0, flat_floor 100, (flat_floor 100)\<lparr>stype := 1\<rparr>, flat_floor 500] 0 10 0
       = Some (100, Some (flat_floor 100))
   \<and> find_floor [flat_floor 500] 0 10 0 = Some (- 11000, None)"
  using find_floor_highest
      [of "[flat_floor 0, flat_floor 100, (flat_floor 100)\<lparr>stype := 1\<rparr>, flat_floor 500]" 0 10 0]
    find_floor_highest [of "[flat_floor 500]" 0 10 0]
  by (simp add: wf_surfs_def find_floor_def flat_floor_def)

text \<open>
  C9, as stated, fails at the sentinel: far below the world the sentinel height -11000 is
  greater than \<open>y + 150\<close>.
\<close>

theorem find_floor_upper_bound_counterexample:
  "find_floor [] 0 (- 12000) 0 = Some (- 11000, None) \<and> \<not> (- 11000 \<le> (- 12000 :: real) + 150)"
  by (simp add: find_floor_def)

text \<open>
  C9, amended. For every query point and every list of surfaces with at least one vertex
  each, \<^verbatim>\<open>find_floor\<close> returns; a height returned together with a surface is never
  greater than \<open>y + 150\<close>; without a surface the height is the sentinel -11000, which is at
  most \<open>y + 150\<close> whenever \<open>y \<ge> -11150\<close>.
\<close>

theorem find_floor_upper_bound:
  assumes "wf_surfs surfs"
  shows "\<exists>h fl. find_floor surfs x y z = Some (h, fl) \<and>
     (fl \<noteq> None \<longrightarrow> - 11000 < h \<and> h \<le> y + 150) \<and>
     (fl = None \<longrightarrow> h = - 11000) \<and>
     (- 11150 \<le> y \<longrightarrow> h \<le> y + 150)"
proof -
  from find_floor_loop_inv [of surfs x y z "- 11000" None] assms
  obtain h' fl' where r: "find_floor surfs x y z = Some (h', fl')"
    and alt: "(h' = - 11000 \<and> fl' = None) \<or>
      (- 11000 < h' \<and> (\<exists>s. fl' = Some s \<and>
          List.find (\<lambda>t. qualifies t x y z \<and> plane_y t x z = h') surfs = Some s))"
    unfolding find_floor_def wf_surfs_def by blast
  from alt show ?thesis
  proof
    assume "h' = - 11000 \<and> fl' = None"
    then show ?thesis using r by auto
  next
    assume a: "- 11000 < h' \<and> (\<exists>s. fl' = Some s \<and>
          List.find (\<lambda>t. qualifies t x y z \<and> plane_y t x z = h') surfs = Some s)"
    then obtain s where fl: "fl' = Some s"
      and f: "List.find (\<lambda>t. qualifies t x y z \<and> plane_y t x z = h') surfs = Some s"
      by auto
    from f have "qualifies s x y z \<and> plane_y s x z = h'" by (auto simp: find_Some_iff)
    then have "h' \<le> y + 150" by (auto simp: qualifies_def)
    then show ?thesis using r fl a by auto
  qed
qed

theorem find_floor_upper_bound_witness:
  "wf_surfs [flat_floor 0, flat_floor 500]
   \<and> find_floor [flat_floor 0, flat_floor 500] 0 10 0 = Some (0, Some (flat_floor 0))
   \<and> (0 :: real) \<le> 10 + 150"
  using find_floor_upper_bound [of "[flat_floor 0, flat_floor 500]" 0 10 0]
  by (simp add: wf_surfs_def find_floor_def flat_floor_def)

section \<open>Totality of the action dispatch\<close>

lemma find_floor_total:
  "wf_surfs surfs \<Longrightarrow> \<exists>h fl. find_floor surfs x y z = Some (h, fl)"
  using find_floor_loop_inv [of surfs x y z "- 11000" None]
  unfolding find_floor_def wf_surfs_def by blast

lemma find_wall_loop_total:
  "list_all (\<lambda>s. verts s \<noteq> []) surfs \<Longrightarrow> \<exists>w. find_wall_loop surfs x y z tx tz = Some w"
proof (induction surfs)
  case Nil
  then show ?case by simp
next
  case (Cons s ss)
  then have v: "verts s \<noteq> []" and ih: "\<exists>w. find_wall_loop ss x y z tx tz = Some w"
    by simp_all
  have m: "map vy (verts s) \<noteq> []" using v by simp
  from ih show ?case
    by (auto simp: py_min_Some [OF m] py_max_Some [OF m] case_list_hd [OF v] Let_def
        simp del: set_map)
qed

lemma find_wall_total:
  "wf_surfs surfs \<Longrightarrow> \<exists>w. find_wall surfs x y z dx dz = Some w"
  unfolding find_wall_def wf_surfs_def by (rule find_wall_loop_total)

lemma ground_step_total:
  assumes "wf_surfs surfs"
  shows "\<exists>r m'. ground_step surfs m = Some (r, m')"
proof -
  obtain h fl where
    "find_floor surfs (vx (pos m) + vx (vel m)) (vy (pos m) + 100) (vz (pos m) + vz (vel m))
       = Some (h, fl)"
    using find_floor_total [OF assms] by blast
  then show ?thesis by (simp add: ground_step_def Let_def)
qed

lemma air_loop_total:
  assumes "wf_surfs surfs"
  shows "\<exists>r m'. air_loop surfs qx qy qz n m = Some (r, m')"
proof (induction n arbitrary: m)
  case 0
  then show ?case by simp
next
  case (Suc n)
  obtain h fl where f:
    "find_floor surfs (vx (pos m) + qx) (vy (pos m) + qy) (vz (pos m) + qz) = Some (h, fl)"
    using find_floor_total [OF assms] by blast
  obtain w where w:
    "find_wall surfs (vx (pos m) + qx) (vy (pos m) + qy + 50) (vz (pos m) + qz)
       (sins (sy (face m))) (coss (sy (face m))) = Some w"
    using find_wall_total [OF assms] by blast
  show ?case
  proof (cases w)
    case None
    then show ?thesis using f w Suc.IH by (simp add: Let_def)
  next
    case (Some s)
    then show ?thesis using f w by (simp add: Let_def)
  qed
qed

lemma air_step_total:
  "wf_surfs surfs \<Longrightarrow> \<exists>r m'. air_step surfs m = Some (r, m')"
  unfolding air_step_def by (rule air_loop_total)

lemma ground_step_not_None: "wf_surfs surfs \<Longrightarrow> ground_step surfs m \<noteq> None"
  using ground_step_total [of surfs m] by auto

lemma air_step_not_None: "wf_surfs surfs \<Longrightarrow> air_step surfs m \<noteq> None"
  using air_step_total [of surfs m] by auto

lemma a_idle_total: "wf_surfs surfs \<Longrightarrow> \<exists>p. a_idle surfs m c = Some p"
  by (simp add: a_idle_def Let_def ground_step_not_None split: option.split prod.split)

lemma a_walk_total: "wf_surfs surfs \<Longrightarrow> \<exists>p. a_walk surfs m c = Some p"
  by (simp add: a_walk_def Let_def ground_step_not_None split: option.split prod.split)

lemma a_decel_total: "wf_surfs surfs \<Longrightarrow> \<exists>p. a_decel surfs m c = Some p"
  by (simp add: a_decel_def Let_def ground_step_not_None split: option.split prod.split)

lemma a_crouch_total: "wf_surfs surfs \<Longrightarrow> \<exists>p. a_crouch surfs m c = Some p"
  by (simp add: a_crouch_def Let_def ground_step_not_None split: option.split prod.split)

lemma a_belly_total: "wf_surfs surfs \<Longrightarrow> \<exists>p. a_belly surfs m c = Some p"
  by (simp add: a_belly_def Let_def ground_step_not_None split: option.split prod.split)

lemma a_jump_total: "wf_surfs surfs \<Longrightarrow> \<exists>p. a_jump surfs m c = Some p"
  by (simp add: a_jump_def Let_def air_step_not_None split: option.split prod.split)

lemma a_dbl_total: "wf_surfs surfs \<Longrightarrow> \<exists>p. a_dbl surfs m c = Some p"
  by (simp add: a_dbl_def Let_def air_step_not_None split: option.split prod.split)

lemma a_triple_total: "wf_surfs surfs \<Longrightarrow> \<exists>p. a_triple surfs m c = Some p"
  by (simp add: a_triple_def Let_def air_step_not_None split: option.split prod.split)

lemma a_backflip_total: "wf_surfs surfs \<Longrightarrow> \<exists>p. a_backflip surfs m c = Some p"
  by (simp add: a_backflip_def Let_def air_step_not_None split: option.split prod.split)

lemma a_sideflip_total: "wf_surfs surfs \<Longrightarrow> \<exists>p. a_sideflip surfs m c = Some p"
  by (simp add: a_sideflip_def Let_def air_step_not_None split: option.split prod.split)

lemma a_longjump_total: "wf_surfs surfs \<Longrightarrow> \<exists>p. a_longjump surfs m c = Some p"
  by (simp add: a_longjump_def Let_def air_step_not_None split: option.split prod.split)

lemma a_freefall_total: "wf_surfs surfs \<Longrightarrow> \<exists>p. a_freefall surfs m c = Some p"
  by (simp add: a_freefall_def Let_def air_step_not_None split: option.split prod.split)

lemma a_wallkick_total: "wf_surfs surfs \<Longrightarrow> \<exists>p. a_wallkick surfs m c = Some p"
  by (simp add: a_wallkick_def Let_def air_step_not_None split: option.split prod.split)

lemma a_dive_total: "wf_surfs surfs \<Longrightarrow> \<exists>p. a_dive surfs m c = Some p"
  by (simp add: a_dive_def Let_def air_step_not_None split: option.split prod.split)

lemma a_gp_total: "wf_surfs surfs \<Longrightarrow> \<exists>p. a_gp surfs m c = Some p"
  by (simp add: a_gp_def Let_def air_step_not_None split: option.split prod.split)

lemma a_gpl_total: "wf_surfs surfs \<Longrightarrow> \<exists>p. a_gpl surfs m c = Some p"
  by (simp add: a_gpl_def Let_def)

lemma a_knock_total: "wf_surfs surfs \<Longrightarrow> \<exists>p. a_knock surfs m c = Some p"
  by (simp add: a_knock_def Let_def air_step_not_None split: option.split prod.split)

lemma a_lava_total: "wf_surfs surfs \<Longrightarrow> \<exists>p. a_lava surfs m c = Some p"
  by (simp add: a_lava_def Let_def air_step_not_None split: option.split prod.split)

lemma a_star_total: "wf_surfs surfs \<Longrightarrow> \<exists>p. a_star surfs m c = Some p"
  by (simp add: a_star_def Let_def)

lemma a_death_total: "wf_surfs surfs \<Longrightarrow> \<exists>p. a_death surfs m c = Some p"
  by (simp add: a_death_def Let_def)

lemmas handler_total =
  a_idle_total a_walk_total a_decel_total a_crouch_total a_jump_total a_dbl_total
  a_triple_total a_backflip_total a_sideflip_total a_longjump_total a_wallkick_total
  a_freefall_total a_dive_total a_belly_total a_gp_total a_gpl_total a_knock_total
  a_lava_total a_star_total a_death_total

lemma ACT_TABLE_total:
  assumes "wf_surfs surfs" "(a, fn) \<in> set ACT_TABLE"
  shows "\<exists>p. fn surfs m c = Some p"
  using assms(2) handler_total [of surfs m c, OF assms(1)]
  unfolding ACT_TABLE_def by auto

lemma dom_ACT_MAP:
  "dom ACT_MAP = {ACT_IDLE, ACT_WALKING, ACT_DECEL, ACT_CROUCH, ACT_JUMP, ACT_DBL_JUMP, ACT_TRIPLE,
      ACT_BACKFLIP, ACT_SIDEFLIP, ACT_LONG_JUMP, ACT_WALLKICK, ACT_FREEFALL, ACT_DIVE,
      ACT_BELLY_SLIDE, ACT_GROUND_POUND, ACT_GP_LAND, ACT_KNOCKBACK, ACT_LAVA_BOOST,
      ACT_STAR_DANCE, ACT_DEATH}"
  unfolding ACT_MAP_def ACT_TABLE_def by (simp add: dom_map_of_conv_image_fst)

text \<open>
  C3. The action dispatch of the logic tick is total. For every state (whatever its action
  id), every input frame and every list of surfaces with at least one vertex each (the
  builders make them with four), the dispatch runs one handler, the one the table gives
  for the action id and the idle handler when the table has no entry for it, and that
  handler returns a next state: no exception is raised.
\<close>

theorem dispatch_total:
  assumes "wf_surfs surfs"
  shows "(\<exists>m' r. dispatch surfs m c = Some (m', r))
     \<and> (\<forall>fn. ACT_MAP (action m) = Some fn \<longrightarrow> dispatch surfs m c = fn surfs m c)
     \<and> (action m \<notin> dom ACT_MAP \<longrightarrow> dispatch surfs m c = a_idle surfs m c)"
proof (cases "ACT_MAP (action m)")
  case None
  then show ?thesis using a_idle_total [OF assms, of m c] by (auto simp: dispatch_def)
next
  case (Some fn)
  then have "(action m, fn) \<in> set ACT_TABLE" unfolding ACT_MAP_def by (rule map_of_SomeD)
  from ACT_TABLE_total [OF assms this, of m c] Some show ?thesis
    by (auto simp: dispatch_def)
qed

theorem dispatch_total_witness:
  "wf_surfs [flat_floor 0]
   \<and> ACT_MAP 0x999 = None
   \<and> dispatch [flat_floor 0] (mario0\<lparr>action := 0x999\<rparr>) ctrl0
       = Some (mario0\<lparr>action := 0x999, floor_m := Some (flat_floor 0), floor_y := 0\<rparr>, Some Ground)
   \<and> dispatch [flat_floor 0] (mario0\<lparr>action := 0x999\<rparr>) ctrl0
       = a_idle [flat_floor 0] (mario0\<lparr>action := 0x999\<rparr>) ctrl0"
  using dispatch_total [of "[flat_floor 0]" "mario0\<lparr>action := 0x999\<rparr>" ctrl0]
  by (simp add: wf_surfs_def dispatch_def ACT_MAP_def ACT_TABLE_def ACT_defs a_idle_def
      stop_xz_def ctrl0_def mario0_def ground_step_def find_floor_def flat_floor_def Let_def)

section \<open>Properties of the air step\<close>

lemma step_pos_0: "step_pos p qx qy qz 0 = p"
  by (simp add: step_pos_def)

lemma step_pos_1:
  "step_pos p qx qy qz (Suc 0) = \<lparr>vx = vx p + qx, vy = vy p + qy, vz = vz p + qz\<rparr>"
  by (simp add: step_pos_def)

lemma step_pos_Suc:
  "step_pos (step_pos p qx qy qz (Suc 0)) qx qy qz j = step_pos p qx qy qz (Suc j)"
  by (simp add: step_pos_def algebra_simps)

text \<open>One iteration of the loop, in terms of the events at the new position.\<close>

lemma air_loop_Suc:
  "air_loop surfs qx qy qz (Suc n) m =
     (let p = step_pos (pos m) qx qy qz (Suc 0)
      in case find_floor surfs (vx p) (vy p) (vz p) of None \<Rightarrow> None
         | Some (fy, fl) \<Rightarrow>
             if vy p \<le> fy then Some (Land, m\<lparr>pos := p\<lparr>vy := fy\<rparr>, floor_m := fl, floor_y := fy\<rparr>)
             else (case wall_query surfs (sy (face m)) p of None \<Rightarrow> None
                   | Some (Some w) \<Rightarrow>
                       Some (Wall, m\<lparr>pos := p, floor_m := fl, floor_y := fy, wall := Some w,
                                     vel := (vel m)\<lparr>vx := 0, vz := 0\<rparr>, fvel := 0\<rparr>)
                   | Some None \<Rightarrow> air_loop surfs qx qy qz n (m\<lparr>pos := p, floor_m := fl, floor_y := fy\<rparr>)))"
  by (simp add: step_pos_1 wall_query_def Let_def split: option.split prod.split)

lemma air_loop_char:
  assumes "air_loop surfs qx qy qz n m = Some (r, m')"
  shows "face m' = face m \<and> r \<noteq> Ground \<and>
    (r = Air \<longrightarrow> (\<forall>j. 1 \<le> j \<and> j \<le> n \<longrightarrow> quiet surfs (sy (face m)) (step_pos (pos m) qx qy qz j))
       \<and> pos m' = step_pos (pos m) qx qy qz n \<and> vel m' = vel m \<and> fvel m' = fvel m) \<and>
    (r = Land \<longrightarrow> (\<exists>k. 1 \<le> k \<and> k \<le> n
       \<and> (\<forall>j. 1 \<le> j \<and> j < k \<longrightarrow> quiet surfs (sy (face m)) (step_pos (pos m) qx qy qz j))
       \<and> lands_at surfs (step_pos (pos m) qx qy qz k)
       \<and> find_floor surfs (vx (step_pos (pos m) qx qy qz k)) (vy (step_pos (pos m) qx qy qz k))
            (vz (step_pos (pos m) qx qy qz k)) = Some (floor_y m', floor_m m')
       \<and> pos m' = (step_pos (pos m) qx qy qz k)\<lparr>vy := floor_y m'\<rparr>)
       \<and> vel m' = vel m \<and> fvel m' = fvel m) \<and>
    (r = Wall \<longrightarrow> (\<exists>k. 1 \<le> k \<and> k \<le> n
       \<and> (\<forall>j. 1 \<le> j \<and> j < k \<longrightarrow> quiet surfs (sy (face m)) (step_pos (pos m) qx qy qz j))
       \<and> \<not> lands_at surfs (step_pos (pos m) qx qy qz k)
       \<and> hits_wall surfs (sy (face m)) (step_pos (pos m) qx qy qz k)
       \<and> wall_query surfs (sy (face m)) (step_pos (pos m) qx qy qz k) = Some (wall m')
       \<and> pos m' = step_pos (pos m) qx qy qz k)
       \<and> vel m' = (vel m)\<lparr>vx := 0, vz := 0\<rparr> \<and> fvel m' = 0)"
  using assms
proof (induction n arbitrary: m)
  case 0
  then show ?case by (auto simp: step_pos_0)
next
  case (Suc n)
  let ?p = "step_pos (pos m) qx qy qz (Suc 0)"
  let ?a = "sy (face m)"
  from Suc.prems obtain fy fl where ff: "find_floor surfs (vx ?p) (vy ?p) (vz ?p) = Some (fy, fl)"
    by (auto simp: air_loop_Suc Let_def simp del: air_loop.simps split: option.splits)
  show ?case
  proof (cases "vy ?p \<le> fy")
    case True
    then have res: "r = Land" "m' = m\<lparr>pos := ?p\<lparr>vy := fy\<rparr>, floor_m := fl, floor_y := fy\<rparr>"
      using Suc.prems ff by (auto simp: air_loop_Suc Let_def simp del: air_loop.simps)
    have l: "lands_at surfs ?p" using True ff by (simp add: lands_at_def)
    have "\<exists>k. 1 \<le> k \<and> k \<le> Suc n
       \<and> (\<forall>j. 1 \<le> j \<and> j < k \<longrightarrow> quiet surfs ?a (step_pos (pos m) qx qy qz j))
       \<and> lands_at surfs (step_pos (pos m) qx qy qz k)
       \<and> find_floor surfs (vx (step_pos (pos m) qx qy qz k)) (vy (step_pos (pos m) qx qy qz k))
            (vz (step_pos (pos m) qx qy qz k)) = Some (floor_y m', floor_m m')
       \<and> pos m' = (step_pos (pos m) qx qy qz k)\<lparr>vy := floor_y m'\<rparr>"
      by (rule exI [of _ "Suc 0"]) (use l ff res in simp)
    then show ?thesis using res by simp
  next
    case False
    then have nl: "\<not> lands_at surfs ?p" using ff by (simp add: lands_at_def)
    from Suc.prems ff False obtain w where wq: "wall_query surfs ?a ?p = Some w"
      by (auto simp: air_loop_Suc Let_def simp del: air_loop.simps split: option.splits)
    show ?thesis
    proof (cases w)
      case (Some s)
      then have res: "r = Wall"
        "m' = m\<lparr>pos := ?p, floor_m := fl, floor_y := fy, wall := Some s,
                vel := (vel m)\<lparr>vx := 0, vz := 0\<rparr>, fvel := 0\<rparr>"
        using Suc.prems ff False wq by (auto simp: air_loop_Suc Let_def simp del: air_loop.simps)
      have h: "hits_wall surfs ?a ?p" using wq Some by (simp add: hits_wall_def)
      have "\<exists>k. 1 \<le> k \<and> k \<le> Suc n
         \<and> (\<forall>j. 1 \<le> j \<and> j < k \<longrightarrow> quiet surfs ?a (step_pos (pos m) qx qy qz j))
         \<and> \<not> lands_at surfs (step_pos (pos m) qx qy qz k)
         \<and> hits_wall surfs ?a (step_pos (pos m) qx qy qz k)
         \<and> wall_query surfs ?a (step_pos (pos m) qx qy qz k) = Some (wall m')
         \<and> pos m' = step_pos (pos m) qx qy qz k"
        by (rule exI [of _ "Suc 0"]) (use nl h wq Some res in simp)
      then show ?thesis using res by simp
    next
      case None
      let ?m2 = "m\<lparr>pos := ?p, floor_m := fl, floor_y := fy\<rparr>"
      have rec: "air_loop surfs qx qy qz n ?m2 = Some (r, m')"
        using Suc.prems ff False wq None
        by (auto simp: air_loop_Suc Let_def simp del: air_loop.simps)
      have q1: "quiet surfs ?a ?p" using nl wq None by (simp add: quiet_def hits_wall_def)
      note ih = Suc.IH [OF rec]
      have sh: "\<And>j. step_pos (pos ?m2) qx qy qz j = step_pos (pos m) qx qy qz (Suc j)"
        by (simp add: step_pos_Suc)
      have shift: "\<And>k. (\<forall>j. 1 \<le> j \<and> j < k \<longrightarrow> quiet surfs ?a (step_pos (pos m) qx qy qz (Suc j)))
          \<Longrightarrow> (\<forall>j. 1 \<le> j \<and> j < Suc k \<longrightarrow> quiet surfs ?a (step_pos (pos m) qx qy qz j))"
      proof (intro allI impI)
        fix k j
        assume a: "\<forall>j. 1 \<le> j \<and> j < k \<longrightarrow> quiet surfs ?a (step_pos (pos m) qx qy qz (Suc j))"
          and b: "1 \<le> j \<and> j < Suc k"
        show "quiet surfs ?a (step_pos (pos m) qx qy qz j)"
        proof (cases "j = Suc 0")
          case True
          then show ?thesis using q1 by simp
        next
          case False
          then obtain i where i: "j = Suc i" "1 \<le> i" "i < k" using b by (cases j) auto
          then show ?thesis using a by simp
        qed
      qed
      have f: "face m' = face m \<and> r \<noteq> Ground" using ih by simp
      have air: "r = Air \<longrightarrow>
          (\<forall>j. 1 \<le> j \<and> j \<le> Suc n \<longrightarrow> quiet surfs ?a (step_pos (pos m) qx qy qz j))
          \<and> pos m' = step_pos (pos m) qx qy qz (Suc n) \<and> vel m' = vel m \<and> fvel m' = fvel m"
      proof
        assume "r = Air"
        with ih have a: "\<forall>j. 1 \<le> j \<and> j \<le> n \<longrightarrow> quiet surfs ?a (step_pos (pos m) qx qy qz (Suc j))"
          and b: "pos m' = step_pos (pos m) qx qy qz (Suc n) \<and> vel m' = vel m \<and> fvel m' = fvel m"
          by (simp_all add: step_pos_Suc)
        from a have "\<forall>j. 1 \<le> j \<and> j < Suc n \<longrightarrow> quiet surfs ?a (step_pos (pos m) qx qy qz (Suc j))"
          by simp
        from shift [OF this] b
        show "(\<forall>j. 1 \<le> j \<and> j \<le> Suc n \<longrightarrow> quiet surfs ?a (step_pos (pos m) qx qy qz j))
          \<and> pos m' = step_pos (pos m) qx qy qz (Suc n) \<and> vel m' = vel m \<and> fvel m' = fvel m"
          by (simp add: less_Suc_eq_le)
      qed
      have land: "r = Land \<longrightarrow> (\<exists>k. 1 \<le> k \<and> k \<le> Suc n
         \<and> (\<forall>j. 1 \<le> j \<and> j < k \<longrightarrow> quiet surfs ?a (step_pos (pos m) qx qy qz j))
         \<and> lands_at surfs (step_pos (pos m) qx qy qz k)
         \<and> find_floor surfs (vx (step_pos (pos m) qx qy qz k)) (vy (step_pos (pos m) qx qy qz k))
              (vz (step_pos (pos m) qx qy qz k)) = Some (floor_y m', floor_m m')
         \<and> pos m' = (step_pos (pos m) qx qy qz k)\<lparr>vy := floor_y m'\<rparr>)
         \<and> vel m' = vel m \<and> fvel m' = fvel m"
      proof
        assume "r = Land"
        with ih obtain k where k: "1 \<le> k" "k \<le> n"
          "\<forall>j. 1 \<le> j \<and> j < k \<longrightarrow> quiet surfs ?a (step_pos (pos m) qx qy qz (Suc j))"
          "lands_at surfs (step_pos (pos m) qx qy qz (Suc k))"
          "find_floor surfs (vx (step_pos (pos m) qx qy qz (Suc k)))
             (vy (step_pos (pos m) qx qy qz (Suc k)))
             (vz (step_pos (pos m) qx qy qz (Suc k))) = Some (floor_y m', floor_m m')"
          "pos m' = (step_pos (pos m) qx qy qz (Suc k))\<lparr>vy := floor_y m'\<rparr>"
          and v: "vel m' = vel m \<and> fvel m' = fvel m"
          by (auto simp: step_pos_Suc)
        have "1 \<le> Suc k \<and> Suc k \<le> Suc n
         \<and> (\<forall>j. 1 \<le> j \<and> j < Suc k \<longrightarrow> quiet surfs ?a (step_pos (pos m) qx qy qz j))
         \<and> lands_at surfs (step_pos (pos m) qx qy qz (Suc k))
         \<and> find_floor surfs (vx (step_pos (pos m) qx qy qz (Suc k)))
              (vy (step_pos (pos m) qx qy qz (Suc k)))
              (vz (step_pos (pos m) qx qy qz (Suc k))) = Some (floor_y m', floor_m m')
         \<and> pos m' = (step_pos (pos m) qx qy qz (Suc k))\<lparr>vy := floor_y m'\<rparr>"
          using k shift [OF k(3)] by simp
        then show "(\<exists>k. 1 \<le> k \<and> k \<le> Suc n
         \<and> (\<forall>j. 1 \<le> j \<and> j < k \<longrightarrow> quiet surfs ?a (step_pos (pos m) qx qy qz j))
         \<and> lands_at surfs (step_pos (pos m) qx qy qz k)
         \<and> find_floor surfs (vx (step_pos (pos m) qx qy qz k)) (vy (step_pos (pos m) qx qy qz k))
              (vz (step_pos (pos m) qx qy qz k)) = Some (floor_y m', floor_m m')
         \<and> pos m' = (step_pos (pos m) qx qy qz k)\<lparr>vy := floor_y m'\<rparr>)
         \<and> vel m' = vel m \<and> fvel m' = fvel m"
          using v by blast
      qed
      have wall: "r = Wall \<longrightarrow> (\<exists>k. 1 \<le> k \<and> k \<le> Suc n
         \<and> (\<forall>j. 1 \<le> j \<and> j < k \<longrightarrow> quiet surfs ?a (step_pos (pos m) qx qy qz j))
         \<and> \<not> lands_at surfs (step_pos (pos m) qx qy qz k)
         \<and> hits_wall surfs ?a (step_pos (pos m) qx qy qz k)
         \<and> wall_query surfs ?a (step_pos (pos m) qx qy qz k) = Some (wall m')
         \<and> pos m' = step_pos (pos m) qx qy qz k)
         \<and> vel m' = (vel m)\<lparr>vx := 0, vz := 0\<rparr> \<and> fvel m' = 0"
      proof
        assume "r = Wall"
        with ih obtain k where k: "1 \<le> k" "k \<le> n"
          "\<forall>j. 1 \<le> j \<and> j < k \<longrightarrow> quiet surfs ?a (step_pos (pos m) qx qy qz (Suc j))"
          "\<not> lands_at surfs (step_pos (pos m) qx qy qz (Suc k))"
          "hits_wall surfs ?a (step_pos (pos m) qx qy qz (Suc k))"
          "wall_query surfs ?a (step_pos (pos m) qx qy qz (Suc k)) = Some (wall m')"
          "pos m' = step_pos (pos m) qx qy qz (Suc k)"
          and v: "vel m' = (vel m)\<lparr>vx := 0, vz := 0\<rparr> \<and> fvel m' = 0"
          by (auto simp: step_pos_Suc)
        have "1 \<le> Suc k \<and> Suc k \<le> Suc n
         \<and> (\<forall>j. 1 \<le> j \<and> j < Suc k \<longrightarrow> quiet surfs ?a (step_pos (pos m) qx qy qz j))
         \<and> \<not> lands_at surfs (step_pos (pos m) qx qy qz (Suc k))
         \<and> hits_wall surfs ?a (step_pos (pos m) qx qy qz (Suc k))
         \<and> wall_query surfs ?a (step_pos (pos m) qx qy qz (Suc k)) = Some (wall m')
         \<and> pos m' = step_pos (pos m) qx qy qz (Suc k)"
          using k shift [OF k(3)] by simp
        then show "(\<exists>k. 1 \<le> k \<and> k \<le> Suc n
         \<and> (\<forall>j. 1 \<le> j \<and> j < k \<longrightarrow> quiet surfs ?a (step_pos (pos m) qx qy qz j))
         \<and> \<not> lands_at surfs (step_pos (pos m) qx qy qz k)
         \<and> hits_wall surfs ?a (step_pos (pos m) qx qy qz k)
         \<and> wall_query surfs ?a (step_pos (pos m) qx qy qz k) = Some (wall m')
         \<and> pos m' = step_pos (pos m) qx qy qz k)
         \<and> vel m' = (vel m)\<lparr>vx := 0, vz := 0\<rparr> \<and> fvel m' = 0"
          using v by blast
      qed
      from f air land wall show ?thesis by blast
    qed
  qed
qed


lemma sub_pos_4:
  "sub_pos m 4 = \<lparr>vx = vx (pos m) + vx (vel m), vy = vy (pos m) + vy (vel m),
                   vz = vz (pos m) + vz (vel m)\<rparr>"
  by (simp add: sub_pos_def step_pos_def)

lemma interval_quant:
  "(\<forall>j\<in>{1..n::nat}. P j) \<longleftrightarrow> (\<forall>j. 1 \<le> j \<and> j \<le> n \<longrightarrow> P j)"
  "(\<forall>j\<in>{1..<k::nat}. P j) \<longleftrightarrow> (\<forall>j. 1 \<le> j \<and> j < k \<longrightarrow> P j)"
  "(\<exists>k\<in>{1..n::nat}. Q k) \<longleftrightarrow> (\<exists>k. 1 \<le> k \<and> k \<le> n \<and> Q k)"
  by auto

text \<open>
  C2. With surfaces of at least one vertex each, \<^verbatim>\<open>air_step\<close> returns, and what it
  returns is determined by the four positions \<open>sub_pos m k\<close>, one more quarter of the
  velocity each. It reports \<^verbatim>\<open>'land'\<close> at the first sub-step \<open>k\<close> whose position is at or
  below the floor found there, all earlier sub-steps having passed without landing and
  without a wall, and the character then stands on that floor height; it reports
  \<^verbatim>\<open>'wall'\<close> at the first sub-step that does not land and whose wall query finds a wall,
  with the horizontal velocity and the forward speed zeroed; and it reports \<^verbatim>\<open>'air'\<close> only
  when all four sub-steps pass without either, the position then being advanced by the
  whole velocity.
\<close>

theorem air_step_quarter_steps:
  assumes "wf_surfs surfs"
  shows "\<exists>r m'. air_step surfs m = Some (r, m') \<and> (r = Land \<or> r = Wall \<or> r = Air) \<and>
    (r = Land \<longrightarrow>
       (\<exists>k\<in>{1..4}. (\<forall>j\<in>{1..<k}. quiet surfs (sy (face m)) (sub_pos m j))
          \<and> lands_at surfs (sub_pos m k)
          \<and> find_floor surfs (vx (sub_pos m k)) (vy (sub_pos m k)) (vz (sub_pos m k))
               = Some (floor_y m', floor_m m')
          \<and> pos m' = (sub_pos m k)\<lparr>vy := floor_y m'\<rparr>)
       \<and> vel m' = vel m \<and> fvel m' = fvel m) \<and>
    (r = Wall \<longrightarrow>
       (\<exists>k\<in>{1..4}. (\<forall>j\<in>{1..<k}. quiet surfs (sy (face m)) (sub_pos m j))
          \<and> \<not> lands_at surfs (sub_pos m k)
          \<and> hits_wall surfs (sy (face m)) (sub_pos m k)
          \<and> wall_query surfs (sy (face m)) (sub_pos m k) = Some (wall m')
          \<and> pos m' = sub_pos m k)
       \<and> vel m' = (vel m)\<lparr>vx := 0, vz := 0\<rparr> \<and> fvel m' = 0) \<and>
    (r = Air \<longrightarrow>
       (\<forall>j\<in>{1..4}. quiet surfs (sy (face m)) (sub_pos m j))
       \<and> pos m' = sub_pos m 4 \<and> vel m' = vel m \<and> fvel m' = fvel m)"
proof -
  obtain r m' where res: "air_step surfs m = Some (r, m')"
    using air_step_total [OF assms] by blast
  then have loop:
    "air_loop surfs (vx (vel m) / 4) (vy (vel m) / 4) (vz (vel m) / 4) 4 m = Some (r, m')"
    by (simp add: air_step_def)
  note c = air_loop_char [OF loop, folded sub_pos_def]
  from c have "r \<noteq> Ground" by (rule conjunct1 [OF conjunct2])
  then have kind: "r = Land \<or> r = Wall \<or> r = Air" by (cases r) simp_all
  from c have rest:
    "(r = Air \<longrightarrow> (\<forall>j. 1 \<le> j \<and> j \<le> 4 \<longrightarrow> quiet surfs (sy (face m)) (sub_pos m j))
       \<and> pos m' = sub_pos m 4 \<and> vel m' = vel m \<and> fvel m' = fvel m)"
    "(r = Land \<longrightarrow> (\<exists>k. 1 \<le> k \<and> k \<le> 4
       \<and> (\<forall>j. 1 \<le> j \<and> j < k \<longrightarrow> quiet surfs (sy (face m)) (sub_pos m j))
       \<and> lands_at surfs (sub_pos m k)
       \<and> find_floor surfs (vx (sub_pos m k)) (vy (sub_pos m k)) (vz (sub_pos m k))
            = Some (floor_y m', floor_m m')
       \<and> pos m' = (sub_pos m k)\<lparr>vy := floor_y m'\<rparr>)
       \<and> vel m' = vel m \<and> fvel m' = fvel m)"
    "(r = Wall \<longrightarrow> (\<exists>k. 1 \<le> k \<and> k \<le> 4
       \<and> (\<forall>j. 1 \<le> j \<and> j < k \<longrightarrow> quiet surfs (sy (face m)) (sub_pos m j))
       \<and> \<not> lands_at surfs (sub_pos m k)
       \<and> hits_wall surfs (sy (face m)) (sub_pos m k)
       \<and> wall_query surfs (sy (face m)) (sub_pos m k) = Some (wall m')
       \<and> pos m' = sub_pos m k)
       \<and> vel m' = (vel m)\<lparr>vx := 0, vz := 0\<rparr> \<and> fvel m' = 0)"
    by (rule conjunct1 [OF conjunct2 [OF conjunct2]], rule conjunct1 [OF conjunct2 [OF conjunct2 [OF conjunct2]]],
        rule conjunct2 [OF conjunct2 [OF conjunct2 [OF conjunct2]]])
  show ?thesis
    unfolding interval_quant
    by (rule exI [of _ r], rule exI [of _ m']) (intro conjI res kind rest)
qed

theorem air_step_quarter_steps_witness:
  "wf_surfs [flat_floor 0]
   \<and> sub_pos m_fall 1 = \<lparr>vx = 0, vy = 1, vz = 0\<rparr>
   \<and> sub_pos m_fall 2 = \<lparr>vx = 0, vy = - 1, vz = 0\<rparr>
   \<and> quiet [flat_floor 0] (sy (face m_fall)) (sub_pos m_fall 1)
   \<and> lands_at [flat_floor 0] (sub_pos m_fall 2)
   \<and> air_step [flat_floor 0] m_fall
       = Some (Land, m_fall\<lparr>pos := \<lparr>vx = 0, vy = 0, vz = 0\<rparr>,
                             floor_m := Some (flat_floor 0), floor_y := 0\<rparr>)"
  using air_step_quarter_steps [of "[flat_floor 0]" m_fall]
  by (simp add: wf_surfs_def air_step_def eval_nat_numeral m_fall_def mario0_def sub_pos_def
      step_pos_def quiet_def lands_at_def hits_wall_def wall_query_def find_floor_def
      find_wall_def flat_floor_def sins_def coss_def Let_def)

section \<open>Landing\<close>

lemma action_set_act: "action (set_act m a) = a"
  by (simp add: set_act_def)

lemmas eval_defs = wf_surfs_def air_step_def eval_nat_numeral m_fall_def mario0_def
      find_floor_def find_wall_def flat_floor_def sins_def coss_def Let_def update_air_def
      set_act_def set_fvel_def land_act_def GRAVITY_def MAX_FALL_def AIR_DRAG_def ctrl0_def IN_defs

text \<open>
  C8, as stated, fails for the backflip: with the stick pushed it lands into idle, not into
  walking. The same holds for the side flip, the long jump, the knockback and the lava
  boost, whose handlers all set the idle action on landing.
\<close>

theorem landing_actions_counterexample:
  "stick_mag c_stick \<noteq> 0
   \<and> map_option snd (a_backflip [flat_floor 0] m_air c_stick) = Some (Some Land)
   \<and> map_option (action \<circ> fst) (a_backflip [flat_floor 0] m_air c_stick) = Some ACT_IDLE
   \<and> ACT_IDLE \<noteq> ACT_WALKING"
  by (simp add: a_backflip_def m_air_def c_stick_def eval_defs ACT_defs)


text \<open>
  C8, amended. When the air step of an airborne handler reports landing: jump, double jump,
  triple jump, freefall and wall kick continue with walking if the stick magnitude is
  positive and with idle otherwise; backflip, side flip, long jump, knockback and lava
  boost continue with idle whatever the stick; the dive continues with the belly slide and
  the ground pound with its landing recovery. (This program has no slide kick.)
\<close>

theorem landing_actions:
  "(a_jump surfs m c = Some (m', Some Land) \<longrightarrow> action m' = (if stick_mag c > 0 then ACT_WALKING else ACT_IDLE))
   \<and> (a_dbl surfs m c = Some (m', Some Land) \<longrightarrow> action m' = (if stick_mag c > 0 then ACT_WALKING else ACT_IDLE))
   \<and> (a_triple surfs m c = Some (m', Some Land) \<longrightarrow> action m' = (if stick_mag c > 0 then ACT_WALKING else ACT_IDLE))
   \<and> (a_freefall surfs m c = Some (m', Some Land) \<longrightarrow> action m' = (if stick_mag c > 0 then ACT_WALKING else ACT_IDLE))
   \<and> (a_wallkick surfs m c = Some (m', Some Land) \<longrightarrow> action m' = (if stick_mag c > 0 then ACT_WALKING else ACT_IDLE))
   \<and> (a_backflip surfs m c = Some (m', Some Land) \<longrightarrow> action m' = ACT_IDLE)
   \<and> (a_sideflip surfs m c = Some (m', Some Land) \<longrightarrow> action m' = ACT_IDLE)
   \<and> (a_longjump surfs m c = Some (m', Some Land) \<longrightarrow> action m' = ACT_IDLE)
   \<and> (a_knock surfs m c = Some (m', Some Land) \<longrightarrow> action m' = ACT_IDLE)
   \<and> (a_lava surfs m c = Some (m', Some Land) \<longrightarrow> action m' = ACT_IDLE)
   \<and> (a_dive surfs m c = Some (m', Some Land) \<longrightarrow> action m' = ACT_BELLY_SLIDE)
   \<and> (a_gp surfs m c = Some (m', Some Land) \<longrightarrow> action m' = ACT_GP_LAND)"
proof (intro conjI impI)
  assume "a_jump surfs m c = Some (m', Some Land)"
  then show "action m' = (if stick_mag c > 0 then ACT_WALKING else ACT_IDLE)"
    by (auto simp: a_jump_def Let_def land_act_def action_set_act split: if_splits option.splits)
next
  assume "a_dbl surfs m c = Some (m', Some Land)"
  then show "action m' = (if stick_mag c > 0 then ACT_WALKING else ACT_IDLE)"
    by (auto simp: a_dbl_def Let_def land_act_def action_set_act split: if_splits option.splits)
next
  assume "a_triple surfs m c = Some (m', Some Land)"
  then show "action m' = (if stick_mag c > 0 then ACT_WALKING else ACT_IDLE)"
    by (auto simp: a_triple_def Let_def land_act_def action_set_act split: if_splits option.splits)
next
  assume "a_freefall surfs m c = Some (m', Some Land)"
  then show "action m' = (if stick_mag c > 0 then ACT_WALKING else ACT_IDLE)"
    by (auto simp: a_freefall_def Let_def land_act_def action_set_act set_act_def split: if_splits option.splits)
next
  assume "a_wallkick surfs m c = Some (m', Some Land)"
  then show "action m' = (if stick_mag c > 0 then ACT_WALKING else ACT_IDLE)"
    by (auto simp: a_wallkick_def Let_def land_act_def action_set_act split: if_splits option.splits)
next
  assume "a_backflip surfs m c = Some (m', Some Land)"
  then show "action m' = ACT_IDLE"
    by (auto simp: a_backflip_def Let_def action_set_act split: if_splits option.splits)
next
  assume "a_sideflip surfs m c = Some (m', Some Land)"
  then show "action m' = ACT_IDLE"
    by (auto simp: a_sideflip_def Let_def action_set_act split: if_splits option.splits)
next
  assume "a_longjump surfs m c = Some (m', Some Land)"
  then show "action m' = ACT_IDLE"
    by (auto simp: a_longjump_def Let_def action_set_act split: if_splits option.splits)
next
  assume "a_knock surfs m c = Some (m', Some Land)"
  then show "action m' = ACT_IDLE"
    by (auto simp: a_knock_def Let_def action_set_act split: if_splits option.splits)
next
  assume "a_lava surfs m c = Some (m', Some Land)"
  then show "action m' = ACT_IDLE"
    by (auto simp: a_lava_def Let_def action_set_act split: if_splits option.splits)
next
  assume "a_dive surfs m c = Some (m', Some Land)"
  then show "action m' = ACT_BELLY_SLIDE"
    by (auto simp: a_dive_def Let_def action_set_act split: if_splits option.splits)
next
  assume "a_gp surfs m c = Some (m', Some Land)"
  then show "action m' = ACT_GP_LAND"
    by (auto simp: a_gp_def Let_def action_set_act split: if_splits option.splits)
qed

theorem landing_actions_witness:
  "a_jump [flat_floor 0] m_air c_stick = Some (m_landed ACT_WALKING, Some Land)
   \<and> a_jump [flat_floor 0] m_air ctrl0 = Some (m_landed ACT_IDLE, Some Land)
   \<and> a_backflip [flat_floor 0] m_air c_stick = Some (m_landed ACT_IDLE, Some Land)
   \<and> a_dive [flat_floor 0] m_air c_stick = Some (m_landed ACT_BELLY_SLIDE, Some Land)
   \<and> action (m_landed ACT_WALKING) = ACT_WALKING
   \<and> action (m_landed ACT_IDLE) = ACT_IDLE
   \<and> action (m_landed ACT_BELLY_SLIDE) = ACT_BELLY_SLIDE"
  using landing_actions [of "[flat_floor 0]" m_air c_stick "m_landed ACT_WALKING"]
    landing_actions [of "[flat_floor 0]" m_air ctrl0 "m_landed ACT_IDLE"]
    landing_actions [of "[flat_floor 0]" m_air c_stick "m_landed ACT_IDLE"]
    landing_actions [of "[flat_floor 0]" m_air c_stick "m_landed ACT_BELLY_SLIDE"]
  by (simp add: a_jump_def a_backflip_def a_dive_def m_landed_def m_air_def c_stick_def
      eval_defs ACT_defs)

section \<open>The jump chain\<close>

lemma air_step_vy:
  assumes "air_step surfs m = Some (r, m')"
  shows "vy (vel m') = vy (vel m)"
proof -
  from assms have
    "air_loop surfs (vx (vel m) / 4) (vy (vel m) / 4) (vz (vel m) / 4) 4 m = Some (r, m')"
    by (simp add: air_step_def)
  from air_loop_char [OF this] show ?thesis by (cases r) auto
qed

lemma ground_step_jump_fields:
  "ground_step surfs m = Some (r, m') \<Longrightarrow> jtimer m' = jtimer m \<and> jcount m' = jcount m"
  by (auto simp: ground_step_def Let_def split: option.splits if_splits)

lemma set_act_jump_fields:
  "jtimer (set_act m a) = jtimer m \<and> jcount (set_act m a) = jcount m
   \<and> vel (set_act m a) = vel m"
  by (simp add: set_act_def)

lemma a_walk_press:
  assumes "pressed c AND IN_A \<noteq> 0" "\<not> (fvel m > 10 \<and> down c AND IN_Z_D \<noteq> 0)"
  shows "\<exists>m'. a_walk surfs m c = Some (m', None) \<and> jcount m' = jcount m + 1 \<and> jtimer m' = 5 \<and>
     action m' = (if jcount m \<ge> 2 \<and> fvel m > 15 then ACT_TRIPLE
                  else if jcount m \<ge> 1 then ACT_DBL_JUMP else ACT_JUMP)"
  using assms by (auto simp: a_walk_def Let_def set_act_def)

lemma a_walk_timer:
  assumes "pressed c AND IN_A = 0" "pressed c AND IN_B = 0" "stick_mag c \<noteq> 0"
    "a_walk surfs m c = Some (m', r)"
  shows "if jtimer m > 0 then jtimer m' = jtimer m - 1 \<and> jcount m' = jcount m
         else jtimer m' = jtimer m \<and> jcount m' = 0"
  using assms
  by (auto simp: a_walk_def Let_def set_act_def set_fvel_def split: option.splits if_splits
      dest!: ground_step_jump_fields)

lemma a_triple_vy:
  assumes "atimer m = 0" "a_triple surfs m c = Some (m', r)"
  shows "vy (vel m') = (if pressed c AND IN_Z \<noteq> 0 then 69 else 65)"
proof (cases "pressed c AND IN_Z \<noteq> 0")
  case True
  then show ?thesis using assms by (auto simp: a_triple_def Let_def set_act_def)
next
  case False
  let ?m1 = "m\<lparr>vel := (vel m)\<lparr>vy := 69\<rparr>, peak_y := vy (pos m)\<rparr>"
  from assms False obtain g m2 where g: "air_step surfs (update_air ?m1) = Some (g, m2)"
    and res: "m' = (let m3 = (if g = Land then set_act m2 (land_act c) else m2)
                    in m3\<lparr>atimer := atimer m3 + 1\<rparr>)"
    by (auto simp: a_triple_def Let_def split: option.splits)
  have "vy (vel m2) = 65"
    using air_step_vy [OF g] by (simp add: update_air_def Let_def GRAVITY_def MAX_FALL_def)
  then show ?thesis using res False by (simp add: Let_def set_act_jump_fields)
qed

lemmas walk_eval = dispatch_def ACT_MAP_def ACT_TABLE_def ACT_defs a_walk_def m_walk_def
  c_stick_def c_jump_def c_jump_crouch_def ground_step_def approach_angle_def py_fmod_def
  MAX_WALK_def eval_defs

text \<open>
  C4, as stated, fails twice. A jump press in walking with counter 2 and forward speed 20
  goes to the long jump, not to the triple jump, when crouch is held. And the counter
  outlives a timer that is no longer positive: five walking ticks after landing from the
  first jump the timer is 0 and the counter still 1 (the counter is only reset by a tick
  that finds the timer at 0), so a jump press on the sixth tick gives a double jump.
\<close>

theorem walk_jump_chain_counterexample:
  "map_option (action \<circ> fst) (a_walk [flat_floor 0] (m_walk\<lparr>jcount := 2, fvel := 20\<rparr>) c_jump_crouch)
     = Some ACT_LONG_JUMP
   \<and> ACT_LONG_JUMP \<noteq> ACT_TRIPLE
   \<and> map_option jtimer (dispatch_seq [flat_floor 0] [c_stick, c_stick, c_stick, c_stick, c_stick] m_walk)
     = Some 0
   \<and> map_option jcount (dispatch_seq [flat_floor 0] [c_stick, c_stick, c_stick, c_stick, c_stick] m_walk)
     = Some 1
   \<and> map_option action
       (dispatch_seq [flat_floor 0] [c_stick, c_stick, c_stick, c_stick, c_stick, c_jump] m_walk)
     = Some ACT_DBL_JUMP
   \<and> ACT_DBL_JUMP \<noteq> ACT_JUMP"
  by (simp add: walk_eval)

text \<open>
  C4, amended. In the walking action a jump press goes to the long jump when the forward
  speed exceeds 10 and crouch is held; otherwise it increments the counter, sets its timer
  to 5, and goes to the triple jump exactly when the counter before the press was at least
  2 and the forward speed exceeds 15, else to the double jump when that counter was at
  least 1, else to the single jump. A walking tick with the stick pushed and neither jump
  nor dive pressed decrements a positive timer and keeps the counter, and resets the
  counter to 0 when it finds the timer at 0 or below. The first tick of the triple jump
  sets the vertical velocity to 69, whatever the forward speed: it is 69 after the tick
  when that tick goes to the ground pound, and 69 plus the gravity of the tick otherwise.
\<close>

theorem walk_jump_chain:
  "(pressed c AND IN_A \<noteq> 0 \<and> fvel m > 10 \<and> down c AND IN_Z_D \<noteq> 0 \<longrightarrow>
      a_walk surfs m c = Some (set_act m ACT_LONG_JUMP, None))
   \<and> (pressed c AND IN_A \<noteq> 0 \<and> \<not> (fvel m > 10 \<and> down c AND IN_Z_D \<noteq> 0) \<longrightarrow>
      (\<exists>m'. a_walk surfs m c = Some (m', None) \<and> jcount m' = jcount m + 1 \<and> jtimer m' = 5 \<and>
         action m' = (if jcount m \<ge> 2 \<and> fvel m > 15 then ACT_TRIPLE
                      else if jcount m \<ge> 1 then ACT_DBL_JUMP else ACT_JUMP)))
   \<and> (pressed c AND IN_A = 0 \<and> pressed c AND IN_B = 0 \<and> stick_mag c \<noteq> 0 \<and>
      a_walk surfs m c = Some (m', r) \<longrightarrow>
      (if jtimer m > 0 then jtimer m' = jtimer m - 1 \<and> jcount m' = jcount m
       else jtimer m' = jtimer m \<and> jcount m' = 0))
   \<and> (wf_surfs surfs \<and> atimer m = 0 \<longrightarrow>
      (\<exists>m' r. a_triple surfs m c = Some (m', r) \<and>
         vy (vel m') = (if pressed c AND IN_Z \<noteq> 0 then 69 else 69 + GRAVITY)))"
proof (intro conjI impI)
  assume "pressed c AND IN_A \<noteq> 0 \<and> fvel m > 10 \<and> down c AND IN_Z_D \<noteq> 0"
  then show "a_walk surfs m c = Some (set_act m ACT_LONG_JUMP, None)"
    by (simp add: a_walk_def)
next
  assume "pressed c AND IN_A \<noteq> 0 \<and> \<not> (fvel m > 10 \<and> down c AND IN_Z_D \<noteq> 0)"
  then show "\<exists>m'. a_walk surfs m c = Some (m', None) \<and> jcount m' = jcount m + 1 \<and> jtimer m' = 5 \<and>
         action m' = (if jcount m \<ge> 2 \<and> fvel m > 15 then ACT_TRIPLE
                      else if jcount m \<ge> 1 then ACT_DBL_JUMP else ACT_JUMP)"
    using a_walk_press [of c m surfs] by blast
next
  assume "pressed c AND IN_A = 0 \<and> pressed c AND IN_B = 0 \<and> stick_mag c \<noteq> 0 \<and>
      a_walk surfs m c = Some (m', r)"
  then show "if jtimer m > 0 then jtimer m' = jtimer m - 1 \<and> jcount m' = jcount m
       else jtimer m' = jtimer m \<and> jcount m' = 0"
    using a_walk_timer [of c surfs m m' r] by blast
next
  assume a: "wf_surfs surfs \<and> atimer m = 0"
  then obtain p where "a_triple surfs m c = Some p" using a_triple_total [of surfs m c] by blast
  then obtain m' r where p: "a_triple surfs m c = Some (m', r)" by (cases p) auto
  from a_triple_vy [OF _ p] a
  have "vy (vel m') = (if pressed c AND IN_Z \<noteq> 0 then 69 else 69 + GRAVITY)"
    by (simp add: GRAVITY_def)
  with p show "\<exists>m' r. a_triple surfs m c = Some (m', r) \<and>
         vy (vel m') = (if pressed c AND IN_Z \<noteq> 0 then 69 else 69 + GRAVITY)"
    by blast
qed

theorem walk_jump_chain_witness:
  "a_walk [flat_floor 0] (m_walk\<lparr>jcount := 2, fvel := 20\<rparr>) c_jump
     = Some (set_act (m_walk\<lparr>jcount := 3, fvel := 20\<rparr>) ACT_TRIPLE, None)
   \<and> a_walk [flat_floor 0] (m_walk\<lparr>jcount := 2, fvel := 20\<rparr>) c_jump_crouch
     = Some (set_act (m_walk\<lparr>jcount := 2, fvel := 20\<rparr>) ACT_LONG_JUMP, None)
   \<and> a_walk [flat_floor 0] (m_walk\<lparr>fvel := 20\<rparr>) c_jump
     = Some (set_act (m_walk\<lparr>jcount := 2, fvel := 20\<rparr>) ACT_DBL_JUMP, None)
   \<and> a_walk [flat_floor 0] (m_walk\<lparr>jcount := 0, jtimer := 0\<rparr>) c_jump
     = Some (set_act (m_walk\<lparr>jcount := 1\<rparr>) ACT_JUMP, None)
   \<and> map_option (jtimer \<circ> fst) (a_walk [flat_floor 0] m_walk c_stick) = Some 4
   \<and> map_option (jcount \<circ> fst) (a_walk [flat_floor 0] (m_walk\<lparr>jtimer := 0\<rparr>) c_stick) = Some 0
   \<and> wf_surfs [flat_floor 0]
   \<and> map_option (vy \<circ> vel \<circ> fst) (a_triple [flat_floor 0] m_triple ctrl0) = Some 65
   \<and> map_option (vy \<circ> vel \<circ> fst) (a_triple [flat_floor 0] (m_triple\<lparr>fvel := 0\<rparr>) ctrl0) = Some 65"
  using walk_jump_chain [of c_jump "m_walk\<lparr>jcount := 2, fvel := 20\<rparr>" "[flat_floor 0]"]
    walk_jump_chain [of c_jump_crouch "m_walk\<lparr>jcount := 2, fvel := 20\<rparr>" "[flat_floor 0]"]
    walk_jump_chain [of ctrl0 m_triple "[flat_floor 0]"]
  by (simp add: walk_eval a_triple_def m_triple_def)

section \<open>Collecting\<close>

lemma interact_one_skip:
  "\<not> o_active ob \<or> o_collected ob \<Longrightarrow> interact_one ctrl lvl m ob = (m, ob, None)"
  by (simp add: interact_one_def)

lemma interact_one_collect:
  assumes "o_active ob" "\<not> o_collected ob" "collectible ob" "in_range m ob"
    "o_type ob = STAR \<longrightarrow> \<not> has_star m lvl (o_star_id ob)"
  shows "interact_one ctrl lvl m ob = (reward lvl m ob, collected_obj ob, None)"
proof -
  have a: "(\<not> o_active ob \<or> o_collected ob) = False" using assms(1,2) by simp
  have d: "(o_irange ob + 30 < obj_dist m ob) = False" using assms(4) by (simp add: in_range_def)
  have t: "o_type ob \<in> {COIN, COIN_RED, COIN_BLUE} \<or> o_type ob = STAR \<or> o_type ob = ONE_UP"
    using assms(3) by (auto simp: collectible_def)
  from t show ?thesis
  proof (elim disjE)
    assume c: "o_type ob \<in> {COIN, COIN_RED, COIN_BLUE}"
    then have c': "(o_type ob \<in> {COIN, COIN_RED, COIN_BLUE}) = True"
      and n: "(o_type ob = STAR) = False" "(o_type ob = ONE_UP) = False"
      by auto
    show ?thesis
      unfolding interact_one_def reward_def collected_obj_def Let_def
      by (simp only: a d c' n if_True if_False)
  next
    assume "o_type ob = STAR"
    then have s: "(o_type ob = STAR) = True"
      and n: "(o_type ob \<in> {COIN, COIN_RED, COIN_BLUE}) = False"
      and h: "has_star m lvl (o_star_id ob) = False"
      using assms(5) by auto
    show ?thesis
      unfolding interact_one_def reward_def collected_obj_def Let_def
      by (simp only: a d s n h if_True if_False not_False_eq_True)
  next
    assume "o_type ob = ONE_UP"
    then have s: "(o_type ob = ONE_UP) = True"
      and n: "(o_type ob \<in> {COIN, COIN_RED, COIN_BLUE}) = False" "(o_type ob = STAR) = False"
      by auto
    show ?thesis
      unfolding interact_one_def reward_def collected_obj_def Let_def
      by (simp only: a d s n if_True if_False)
  qed
qed

lemma interact_objs_length:
  "interact_objs ctrl lvl m obs = (m2, obs2, r) \<Longrightarrow> length obs2 = length obs"
proof (induction obs arbitrary: m m2 obs2 r)
  case Nil
  then show ?case by simp
next
  case (Cons ob obs)
  obtain m1 ob1 w where one: "interact_one ctrl lvl m ob = (m1, ob1, w)"
    by (cases "interact_one ctrl lvl m ob") auto
  show ?case
  proof (cases w)
    case (Some t)
    with one Cons.prems show ?thesis by auto
  next
    case None
    obtain m3 obs3 r3 where rest: "interact_objs ctrl lvl m1 obs = (m3, obs3, r3)"
      by (cases "interact_objs ctrl lvl m1 obs") auto
    from Cons.IH [OF rest] one None rest Cons.prems show ?thesis by auto
  qed
qed

lemma interact_objs_append:
  "interact_objs ctrl lvl m pre = (mp, pre', None) \<Longrightarrow>
   interact_objs ctrl lvl m (pre @ rest) =
     (case interact_objs ctrl lvl mp rest of (m2, rest', r) \<Rightarrow> (m2, pre' @ rest', r))"
proof (induction pre arbitrary: m pre')
  case Nil
  then show ?case by (auto split: prod.splits)
next
  case (Cons ob pre)
  obtain m1 ob1 w where one: "interact_one ctrl lvl m ob = (m1, ob1, w)"
    by (cases "interact_one ctrl lvl m ob") auto
  show ?case
  proof (cases w)
    case (Some t)
    with one Cons.prems show ?thesis by auto
  next
    case None
    obtain m3 obs3 r3 where rest: "interact_objs ctrl lvl m1 pre = (m3, obs3, r3)"
      by (cases "interact_objs ctrl lvl m1 pre") auto
    with one None Cons.prems have e: "m3 = mp" "pre' = ob1 # obs3" "r3 = None" by auto
    from Cons.IH [of m1 obs3] rest e one None show ?thesis by (auto split: prod.splits)
  qed
qed

lemma interact_objs_transparent:
  assumes "\<not> o_active ob \<or> o_collected ob"
  shows "interact_objs ctrl lvl m (pre @ ob # post) =
     (case interact_objs ctrl lvl m (pre @ post) of
        (m2, obs2, r) \<Rightarrow> (m2, take (length pre) obs2 @ ob # drop (length pre) obs2, r))"
proof (induction pre arbitrary: m)
  case Nil
  show ?case using interact_one_skip [OF assms] by (auto split: prod.splits)
next
  case (Cons p pre)
  obtain m1 p1 w where one: "interact_one ctrl lvl m p = (m1, p1, w)"
    by (cases "interact_one ctrl lvl m p") auto
  show ?case
  proof (cases w)
    case (Some t)
    with one show ?thesis by auto
  next
    case None
    with one Cons.IH [of m1] show ?thesis by (auto split: prod.splits)
  qed
qed

lemma get_star_new:
  "\<not> has_star m l s \<Longrightarrow>
   stars (get_star m l s) = stars m + 1 \<and> has_star (get_star m l s) l s
   \<and> coins (get_star m l s) = coins m \<and> lives (get_star m l s) = lives m"
  by (auto simp: has_star_def get_star_def Let_def split: option.splits)

lemma reward_counters:
  "(o_type ob \<in> {COIN, COIN_RED, COIN_BLUE} \<longrightarrow>
      coins (reward lvl m ob) = coins m + o_coins ob \<and> stars (reward lvl m ob) = stars m
      \<and> lives (reward lvl m ob) = lives m)
   \<and> (o_type ob = ONE_UP \<longrightarrow>
      lives (reward lvl m ob) = lives m + 1 \<and> coins (reward lvl m ob) = coins m
      \<and> stars (reward lvl m ob) = stars m)
   \<and> (o_type ob = STAR \<and> \<not> has_star m lvl (o_star_id ob) \<longrightarrow>
      stars (reward lvl m ob) = stars m + 1 \<and> has_star (reward lvl m ob) lvl (o_star_id ob)
      \<and> coins (reward lvl m ob) = coins m \<and> lives (reward lvl m ob) = lives m)"
  using get_star_new [of m lvl "o_star_id ob"]
  by (auto simp: reward_def heal_def set_act_def has_star_def)

text \<open>
  C6, as stated, fails for a star the character already holds: the star is a collectible
  within range, active and not collected, and a run of the interaction resolution leaves
  it so and grants nothing. It also fails in a run that a warp ends before the actor's
  turn: a coin behind a pipe stays uncollected in the run in which the pipe is entered.
\<close>

theorem collect_once_counterexample:
  "collectible (obj0 STAR) \<and> in_range m_star (obj0 STAR)
   \<and> o_active (obj0 STAR) \<and> \<not> o_collected (obj0 STAR)
   \<and> interact_objs ctrl0 0 m_star [obj0 STAR] = (m_star, [obj0 STAR], None)
   \<and> collectible coin5 \<and> in_range mario0 coin5
   \<and> interact_objs c_jump 0 mario0 [obj0 PIPE, coin5] = (mario0, [obj0 PIPE, coin5], Some (- 1))"
  by (simp add: collectible_def in_range_def obj_dist_def obj0_def coin5_def m_star_def mario0_def
      interact_one_def has_star_def c_jump_def c_stick_def ctrl0_def IN_defs Let_def)

text \<open>
  C6, amended. Let a run of the interaction resolution reach a collectible actor (no warp
  before its turn) that is active, not collected, within collection range of the character
  at that moment and, if it is a star, not yet held by the character. Then the run
  continues from the character state with the reward granted and leaves the actor
  collected and inactive: a coin adds its value to the coins, a one-up adds 1 to the lives,
  a star adds 1 to the stars, and the other two counters are as they were. In every later
  run, whatever the character state, the input frame and the other actors, the collected
  actor is left unchanged and the run proceeds exactly as if it were not in the list.
\<close>

theorem collect_once:
  assumes "interact_objs ctrl lvl m pre = (mp, pre', None)"
    and "o_active ob" "\<not> o_collected ob" "collectible ob" "in_range mp ob"
    and "o_type ob = STAR \<longrightarrow> \<not> has_star mp lvl (o_star_id ob)"
  shows "interact_objs ctrl lvl m (pre @ ob # post) =
       (case interact_objs ctrl lvl (reward lvl mp ob) post of
          (m2, post', r) \<Rightarrow> (m2, pre' @ collected_obj ob # post', r))
     \<and> o_collected (collected_obj ob) \<and> \<not> o_active (collected_obj ob)
     \<and> (o_type ob \<in> {COIN, COIN_RED, COIN_BLUE} \<longrightarrow>
          coins (reward lvl mp ob) = coins mp + o_coins ob \<and> stars (reward lvl mp ob) = stars mp
          \<and> lives (reward lvl mp ob) = lives mp)
     \<and> (o_type ob = ONE_UP \<longrightarrow>
          lives (reward lvl mp ob) = lives mp + 1 \<and> coins (reward lvl mp ob) = coins mp
          \<and> stars (reward lvl mp ob) = stars mp)
     \<and> (o_type ob = STAR \<longrightarrow>
          stars (reward lvl mp ob) = stars mp + 1 \<and> has_star (reward lvl mp ob) lvl (o_star_id ob)
          \<and> coins (reward lvl mp ob) = coins mp \<and> lives (reward lvl mp ob) = lives mp)
     \<and> (\<forall>ctrl2 lvl2 m2 pre2 post2.
          interact_objs ctrl2 lvl2 m2 (pre2 @ collected_obj ob # post2) =
            (case interact_objs ctrl2 lvl2 m2 (pre2 @ post2) of
               (m3, obs3, r) \<Rightarrow>
                 (m3, take (length pre2) obs3 @ collected_obj ob # drop (length pre2) obs3, r)))"
proof -
  have one: "interact_one ctrl lvl mp ob = (reward lvl mp ob, collected_obj ob, None)"
    using assms(2-6) by (rule interact_one_collect)
  have run: "interact_objs ctrl lvl m (pre @ ob # post) =
       (case interact_objs ctrl lvl (reward lvl mp ob) post of
          (m2, post', r) \<Rightarrow> (m2, pre' @ collected_obj ob # post', r))"
    using interact_objs_append [OF assms(1), of "ob # post"] one by (auto split: prod.splits)
  have flags: "o_collected (collected_obj ob) \<and> \<not> o_active (collected_obj ob)"
    by (simp add: collected_obj_def)
  have later: "\<forall>ctrl2 lvl2 m2 pre2 post2.
          interact_objs ctrl2 lvl2 m2 (pre2 @ collected_obj ob # post2) =
            (case interact_objs ctrl2 lvl2 m2 (pre2 @ post2) of
               (m3, obs3, r) \<Rightarrow>
                 (m3, take (length pre2) obs3 @ collected_obj ob # drop (length pre2) obs3, r))"
    using interact_objs_transparent [of "collected_obj ob"] flags by blast
  from run flags later reward_counters [of ob lvl mp] assms(6) show ?thesis by blast
qed

theorem collect_once_witness:
  "interact_objs ctrl0 0 m_hurt [] = (m_hurt, [], None)
   \<and> o_active coin5 \<and> \<not> o_collected coin5 \<and> collectible coin5 \<and> in_range m_hurt coin5
   \<and> interact_objs ctrl0 0 m_hurt [coin5, obj0 ONE_UP]
       = (m_hurt\<lparr>coins := 5, health := 0x540, lives := 5\<rparr>,
          [collected_obj coin5, collected_obj (obj0 ONE_UP)], None)
   \<and> interact_objs ctrl0 0 (m_hurt\<lparr>coins := 5, health := 0x540, lives := 5\<rparr>)
         [collected_obj coin5, collected_obj (obj0 ONE_UP)]
       = (m_hurt\<lparr>coins := 5, health := 0x540, lives := 5\<rparr>,
          [collected_obj coin5, collected_obj (obj0 ONE_UP)], None)
   \<and> coins (reward 0 m_hurt coin5) = 5"
  using collect_once [of ctrl0 0 m_hurt "[]" m_hurt "[]" coin5 "[obj0 ONE_UP]"]
  by (simp add: collectible_def in_range_def obj_dist_def obj0_def coin5_def m_hurt_def mario0_def
      interact_one_def collected_obj_def reward_def heal_def ctrl0_def IN_defs Let_def)

section \<open>Drawing order\<close>














section \<open>Health and damage\<close>

lemma take_dmg_gate: "inv_m m > 0 \<Longrightarrow> take_dmg m amt = m"
  by (simp add: take_dmg_def)

lemma take_dmg_inv_pos: "inv_m m \<le> 0 \<Longrightarrow> inv_m (take_dmg m amt) = 60"
  by (simp add: take_dmg_def)

text \<open>
  C5. With a positive invulnerability timer \<^verbatim>\<open>take_dmg\<close> changes nothing at all; a second
  call right after a first one (no decrement of the timer between them) leaves the health
  as the first call left it; and the health after a call is not negative when it was not
  negative before or when the damage is applied.
\<close>

theorem take_dmg_invulnerable:
  "(inv_m m > 0 \<longrightarrow> take_dmg m amt = m)
   \<and> take_dmg (take_dmg m a) b = take_dmg m a
   \<and> (inv_m m \<le> 0 \<longrightarrow> inv_m (take_dmg m a) = 60)
   \<and> (0 \<le> health m \<or> inv_m m \<le> 0 \<longrightarrow> 0 \<le> health (take_dmg m amt))"
  by (simp add: take_dmg_def)

theorem take_dmg_invulnerable_witness:
  "take_dmg (mario0\<lparr>inv_m := 3\<rparr>) 0x100 = mario0\<lparr>inv_m := 3\<rparr>
   \<and> health (take_dmg (take_dmg mario0 0x100) 0x100) = 0x780
   \<and> inv_m (take_dmg mario0 0x100) = 60
   \<and> 0 \<le> health (take_dmg (mario0\<lparr>health := 0x80\<rparr>) 0x100)"
  using take_dmg_invulnerable [of "mario0\<lparr>inv_m := 3\<rparr>" "0x100" "0x100" "0x100"]
    take_dmg_invulnerable [of mario0 "0x100" "0x100" "0x100"]
    take_dmg_invulnerable [of "mario0\<lparr>health := 0x80\<rparr>" "0x100" "0x100" "0x100"]
  by (simp add: take_dmg_def mario0_def)

lemma wedges_range:
  assumes "0 \<le> health m" "health m \<le> 0x880"
  shows "0 \<le> wedges m \<and> wedges m \<le> 8"
proof -
  have d: "drop_bit 8 (health m) = health m div 256" by (simp add: drop_bit_eq_div)
  have lo: "0 \<le> health m div 256" using assms by simp
  have hi: "health m div 256 \<le> 8" using assms by simp
  have "0 \<le> (health m div 256) AND 0xF" using lo by simp
  moreover have "(health m div 256) AND 0xF \<le> health m div 256" using lo by (rule AND_upper1)
  ultimately show ?thesis using hi by (simp add: wedges_def d)
qed

lemma run_call_bounds:
  "0 \<le> health m \<Longrightarrow> health m \<le> 0x880 \<Longrightarrow> 0 \<le> hp_amount c \<Longrightarrow>
   0 \<le> health (run_call m c) \<and> health (run_call m c) \<le> 0x880"
  by (cases c) (auto simp: heal_def take_dmg_def)

lemma run_calls_bounds:
  "0 \<le> health m \<Longrightarrow> health m \<le> 0x880 \<Longrightarrow> \<forall>c\<in>set cs. 0 \<le> hp_amount c \<Longrightarrow>
   0 \<le> health (run_calls m cs) \<and> health (run_calls m cs) \<le> 0x880"
  unfolding run_calls_def
proof (induction cs arbitrary: m)
  case Nil
  then show ?case by simp
next
  case (Cons c cs)
  have "0 \<le> health (run_call m c) \<and> health (run_call m c) \<le> 0x880"
    using Cons.prems by (intro run_call_bounds) auto
  then show ?case using Cons.IH [of "run_call m c"] Cons.prems by simp
qed

text \<open>
  C10, as stated, fails for negative amounts: \<^verbatim>\<open>heal\<close> only clamps above and
  \<^verbatim>\<open>take_dmg\<close> only clamps below, so \<^verbatim>\<open>heal(-0x100)\<close> at health 0 gives a negative
  health and \<^verbatim>\<open>take_dmg(-0x100)\<close> at full health gives 0x980, shown as 9 wedges.
\<close>

theorem health_bounds_counterexample:
  "0 \<le> health (mario0\<lparr>health := 0\<rparr>) \<and> health (mario0\<lparr>health := 0\<rparr>) \<le> 0x880
   \<and> health (run_calls (mario0\<lparr>health := 0\<rparr>) [Heal (- 0x100)]) = - 0x100
   \<and> health (run_calls mario0 [TakeDmg (- 0x100)]) = 0x980
   \<and> wedges (run_calls mario0 [TakeDmg (- 0x100)]) = 9"
  by (simp add: run_calls_def heal_def take_dmg_def mario0_def wedges_def drop_bit_eq_div)

text \<open>
  C10, amended. Starting from a health in [0, 0x880], every sequence of \<^verbatim>\<open>heal\<close> and
  \<^verbatim>\<open>take_dmg\<close> calls whose amounts are not negative, with any number of ticks between
  them, keeps the health in [0, 0x880], and the wedge count \<^verbatim>\<open>(health >> 8) & 0xF\<close>
  between 0 and 8.
\<close>

theorem health_bounds:
  "0 \<le> health m \<Longrightarrow> health m \<le> 0x880 \<Longrightarrow> \<forall>c\<in>set cs. 0 \<le> hp_amount c \<Longrightarrow>
   0 \<le> health (run_calls m cs) \<and> health (run_calls m cs) \<le> 0x880
   \<and> 0 \<le> wedges (run_calls m cs) \<and> wedges (run_calls m cs) \<le> 8"
  using run_calls_bounds [of m cs] wedges_range [of "run_calls m cs"] by simp

theorem health_bounds_witness:
  "0 \<le> health mario0 \<and> health mario0 \<le> 0x880
   \<and> list_all (\<lambda>c. 0 \<le> hp_amount c) [TakeDmg 0x300, Heal 0x40, Tick, TakeDmg 0x100]
   \<and> health (run_calls mario0 [TakeDmg 0x300, Heal 0x40, Tick, TakeDmg 0x100]) = 0x5C0
   \<and> wedges (run_calls mario0 [TakeDmg 0x300, Heal 0x40, Tick, TakeDmg 0x100]) = 5
   \<and> 0 \<le> wedges (run_calls mario0 [TakeDmg 0x300, Heal 0x40, Tick, TakeDmg 0x100])
   \<and> wedges (run_calls mario0 [TakeDmg 0x300, Heal 0x40, Tick, TakeDmg 0x100]) \<le> 8"
  using health_bounds [of mario0 "[TakeDmg 0x300, Heal 0x40, Tick, TakeDmg 0x100]"]
  by (simp add: run_calls_def heal_def take_dmg_def mario0_def wedges_def drop_bit_eq_div)

end
